theory Spec2Isabelle
  imports Main "HOL-Library.Multiset"
begin

section \<open>Calendar months and the three target months\<close>

text \<open>
  \<^verbatim>\<open>main\<close> builds the reference month from the configured report date and the two
  lagging months with \<^verbatim>\<open>pd.DateOffset\<close>:
  \<^verbatim>\<open>
  current_month = report_date.replace(day=1)
  one_month_before = current_month - pd.DateOffset(months=1)
  two_months_before = current_month - pd.DateOffset(months=2)
  \<close>
  A timestamp is offset-naive here (the report date has its zone removed, and
  \<^verbatim>\<open>prepare_rank_data\<close> converts the time column to UTC and drops the zone before it
  looks at months). Only the calendar fields matter for the month arithmetic; the time of
  day is kept as seconds since midnight.
\<close>

record timestamp =
  ts_year :: int
  ts_month :: int
  ts_day :: int
  ts_secs :: nat

type_synonym period = "int \<times> int"

definition to_period :: "timestamp \<Rightarrow> period" where
  "to_period t = (ts_year t, ts_month t)"

definition is_leap :: "int \<Rightarrow> bool" where
  "is_leap y = (y mod 4 = 0 \<and> (y mod 100 \<noteq> 0 \<or> y mod 400 = 0))"

definition days_in_month :: "int \<Rightarrow> int \<Rightarrow> int" where
  "days_in_month y m =
     (if m = 2 then (if is_leap y then 29 else 28)
      else if m = 4 \<or> m = 6 \<or> m = 9 \<or> m = 11 then 30 else 31)"

text \<open>
  \<^verbatim>\<open>ts - pd.DateOffset(months=k)\<close> adds \<^verbatim>\<open>relativedelta(months=-k)\<close>: the month is moved,
  the year is carried once when the month leaves 1..12, and the day is clipped to the
  length of the month reached.
\<close>

definition add_months :: "timestamp \<Rightarrow> int \<Rightarrow> timestamp" where
  "add_months t k =
     (let m = ts_month t + k;
          y' = (if m > 12 then ts_year t + 1 else if m < 1 then ts_year t - 1 else ts_year t);
          m' = (if m > 12 then m - 12 else if m < 1 then m + 12 else m)
      in t\<lparr>ts_year := y', ts_month := m', ts_day := min (days_in_month y' m') (ts_day t)\<rparr>)"

definition sub_date_offset_months :: "timestamp \<Rightarrow> int \<Rightarrow> timestamp" where
  "sub_date_offset_months t k = add_months t (- k)"

definition current_month :: "timestamp \<Rightarrow> timestamp" where
  "current_month report_date = report_date\<lparr>ts_day := 1\<rparr>"

definition one_month_before :: "timestamp \<Rightarrow> timestamp" where
  "one_month_before report_date = sub_date_offset_months (current_month report_date) 1"

definition two_months_before :: "timestamp \<Rightarrow> timestamp" where
  "two_months_before report_date = sub_date_offset_months (current_month report_date) 2"

text \<open>The number of whole calendar months from year 0, month 1 to a period.\<close>

definition month_index :: "period \<Rightarrow> int" where
  "month_index p = 12 * fst p + (snd p - 1)"

section \<open>Minimum-rank ranking\<close>

text \<open>
  \<^verbatim>\<open>rank(ascending=False, method='min')\<close> orders the values of a group from the largest
  to the smallest and gives every value the 1-based position of the first of its equals.
\<close>

definition rank_min_desc :: "nat list \<Rightarrow> nat \<Rightarrow> nat" where
  "rank_min_desc vs v = Suc (length (takeWhile (\<lambda>x. x \<noteq> v) (rev (sort vs))))"

definition rank_column :: "nat list \<Rightarrow> nat list" where
  "rank_column vs = map (rank_min_desc vs) vs"

section \<open>Data frames\<close>

text \<open>
  The scripts work on pandas data frames. A frame is its list of column names and its
  rows in order; a cell is a missing value, a text, a number or a timestamp. The three
  missing values are kept apart because \<^verbatim>\<open>astype(str)\<close> prints them differently. Numbers
  are values of a type \<open>'n\<close>; how a number is printed and which texts \<^verbatim>\<open>pd.to_numeric\<close>
  reads as numbers is given by the conversions \<open>conv\<close>.
\<close>

datatype missing = NaN | PyNone | NaT

datatype 'n cell = Missing missing | Str string | Num 'n | Ts timestamp

record 'n dataframe =
  columns :: "string list"
  rows :: "'n cell list list"

record 'n conv =
  num_str :: "'n \<Rightarrow> string"
  ts_str :: "timestamp \<Rightarrow> string"
  to_num :: "string \<Rightarrow> 'n option"
  csv_ts :: "timestamp \<Rightarrow> string"

datatype error =
    KeyError | AttributeError | FileNotFoundError | RuntimeError | ConnectionError
  | ParserError | QueryError | CsvError | StopIteration

definition isna :: "'n cell \<Rightarrow> bool" where
  "isna x = (case x of Missing k \<Rightarrow> True | _ \<Rightarrow> False)"

fun col_index :: "string list \<Rightarrow> string \<Rightarrow> nat option" where
  "col_index [] c = None"
| "col_index (n # ns) c = (if n = c then Some 0 else map_option Suc (col_index ns c))"

text \<open>A cell of a row; a row shorter than the header has missing values at its end.\<close>

definition cell_at :: "'n cell list \<Rightarrow> nat \<Rightarrow> 'n cell" where
  "cell_at r i = (if i < length r then r ! i else Missing NaN)"

definition wf_df :: "'n dataframe \<Rightarrow> bool" where
  "wf_df df = list_all (\<lambda>r. length r = length (columns df)) (rows df)"

text \<open>\<^verbatim>\<open>df[col] = f(df[col])\<close> for a function that works cell by cell.\<close>

fun map_named :: "string \<Rightarrow> ('n cell \<Rightarrow> 'n cell) \<Rightarrow> string list \<Rightarrow> 'n cell list \<Rightarrow> 'n cell list" where
  "map_named c f (n # ns) (x # xs) = (if n = c then f x else x) # map_named c f ns xs"
| "map_named c f ns xs = xs"

definition map_column :: "string \<Rightarrow> ('n cell \<Rightarrow> 'n cell) \<Rightarrow> 'n dataframe \<Rightarrow> 'n dataframe" where
  "map_column c f df = df\<lparr>rows := map (map_named c f (columns df)) (rows df)\<rparr>"

text \<open>The cells of a column, top to bottom (\<^verbatim>\<open>df[col]\<close>).\<close>

definition column_cells :: "'n dataframe \<Rightarrow> string \<Rightarrow> 'n cell list" where
  "column_cells df c =
     (case col_index (columns df) c of
        None \<Rightarrow> []
      | Some i \<Rightarrow> map (\<lambda>r. cell_at r i) (rows df))"

section \<open>Record sanitizer\<close>

text \<open>
  \<^verbatim>\<open>clean_dataframe\<close>:
  \<^verbatim>\<open>
  if 'time' in df.columns:
      df['time'] = df['time'].astype(str)
  for col in string_columns:
      if col in df.columns:
          df[col] = df[col].astype(str).replace(r'[\[\]\{\}"\\,]', '', regex=True)
          comma_values = df[col].str.contains(',', na=False)
          json_pattern = r'[\[\{].*[\]\}]'
          json_values = df[col].str.contains(json_pattern, na=False)
          if comma_values.any(): print(f"Warning: Commas found in {col}: ...")
          if json_values.any(): print(f"Warning: JSON-like content found in {col}: ...")
  for col in numeric_columns:
      if col in df.columns:
          df[col] = pd.to_numeric(df[col], errors='coerce')
  return df
  \<close>
  \<^verbatim>\<open>astype(str)\<close> is that of pandas 1.x and 2.x on an object column: every cell becomes
  its \<^verbatim>\<open>str()\<close>, a missing value included (\<^verbatim>\<open>nan\<close>, \<^verbatim>\<open>None\<close>, \<^verbatim>\<open>NaT\<close>). The printed
  warnings are returned as a list beside the frame.
\<close>

definition string_columns :: "string list" where
  "string_columns = [''associated_lender'', ''exportedLender'', ''primaryIncome'', ''rateType'',
     ''loanPurpose'', ''lvrBucket'', ''transactionType'', ''performance'', ''scenarioId'']"

definition numeric_columns :: "string list" where
  "numeric_columns = [''totalProposedLoanAmount'', ''lvr'', ''paygIncome'', ''weeklyRentalIncome'',
     ''selfEmployedIncome'', ''count_all_loan_purpose'', ''count_all_unique_scenario_id'',
     ''sum_all_total_proposed_loan_amount'']"

definition dquote :: char where "dquote = CHR 0x22"
definition backslash :: char where "backslash = CHR 0x5C"
definition tab :: char where "tab = CHR 0x09"
definition LF :: char where "LF = CHR 0x0A"
definition CR :: char where "CR = CHR 0x0D"

text \<open>The character class \<^verbatim>\<open>[\[\]\{\}"\\,]\<close>.\<close>

definition stripped_chars :: "char list" where
  "stripped_chars = [CHR ''['', CHR '']'', CHR ''{'', CHR ''}'', dquote, backslash, CHR '','']"

definition strip_chars :: "string \<Rightarrow> string" where
  "strip_chars s = filter (\<lambda>c. c \<notin> set stripped_chars) s"

definition str_of :: "'n conv \<Rightarrow> 'n cell \<Rightarrow> string" where
  "str_of conv x =
     (case x of
        Missing NaN \<Rightarrow> ''nan''
      | Missing PyNone \<Rightarrow> ''None''
      | Missing NaT \<Rightarrow> ''NaT''
      | Str s \<Rightarrow> s
      | Num n \<Rightarrow> num_str conv n
      | Ts t \<Rightarrow> ts_str conv t)"

definition astype_str :: "'n conv \<Rightarrow> 'n cell \<Rightarrow> 'n cell" where
  "astype_str conv x = Str (str_of conv x)"

definition clean_string :: "'n conv \<Rightarrow> 'n cell \<Rightarrow> 'n cell" where
  "clean_string conv x = Str (strip_chars (str_of conv x))"

text \<open>\<^verbatim>\<open>str.contains(',', na=False)\<close> on one cell.\<close>

definition contains_comma :: "'n cell \<Rightarrow> bool" where
  "contains_comma x = (case x of Str s \<Rightarrow> CHR '','' \<in> set s | _ \<Rightarrow> False)"

text \<open>
  A search for \<^verbatim>\<open>[\[\{].*[\]\}]\<close>: \<open>closes\<close> matches \<^verbatim>\<open>.*[\]\}]\<close> at the start of a
  text (the dot does not match a linefeed), \<open>json_like\<close> looks for an opening character
  followed by such a match.
\<close>

fun closes :: "string \<Rightarrow> bool" where
  "closes [] = False"
| "closes (c # cs) = (c = CHR '']'' \<or> c = CHR ''}'' \<or> (c \<noteq> LF \<and> closes cs))"

fun json_like :: "string \<Rightarrow> bool" where
  "json_like [] = False"
| "json_like (c # cs) = (((c = CHR ''['' \<or> c = CHR ''{'') \<and> closes cs) \<or> json_like cs)"

definition contains_json :: "'n cell \<Rightarrow> bool" where
  "contains_json x = (case x of Str s \<Rightarrow> json_like s | _ \<Rightarrow> False)"

datatype warning = CommasFound string | JsonLikeFound string

definition to_numeric :: "'n conv \<Rightarrow> 'n cell \<Rightarrow> 'n cell" where
  "to_numeric conv x =
     (case x of
        Num n \<Rightarrow> Num n
      | Str s \<Rightarrow> (case to_num conv s of Some n \<Rightarrow> Num n | None \<Rightarrow> Missing NaN)
      | _ \<Rightarrow> Missing NaN)"

definition clean_string_column ::
  "'n conv \<Rightarrow> string \<Rightarrow> 'n dataframe \<times> warning list \<Rightarrow> 'n dataframe \<times> warning list" where
  "clean_string_column conv col st =
     (let df = fst st; ws = snd st in
      if col \<in> set (columns df) then
        (let df' = map_column col (clean_string conv) df;
             comma_values = map contains_comma (column_cells df' col);
             json_values = map contains_json (column_cells df' col)
         in (df', ws @ (if list_ex id comma_values then [CommasFound col] else [])
                     @ (if list_ex id json_values then [JsonLikeFound col] else [])))
      else (df, ws))"

definition clean_numeric_column :: "'n conv \<Rightarrow> string \<Rightarrow> 'n dataframe \<Rightarrow> 'n dataframe" where
  "clean_numeric_column conv col df =
     (if col \<in> set (columns df) then map_column col (to_numeric conv) df else df)"

definition clean_dataframe :: "'n conv \<Rightarrow> 'n dataframe \<Rightarrow> 'n dataframe \<times> warning list" where
  "clean_dataframe conv df =
     (let df1 = (if ''time'' \<in> set (columns df) then map_column ''time'' (astype_str conv) df else df);
          st = foldl (\<lambda>st col. clean_string_column conv col st) (df1, []) string_columns
      in (foldl (\<lambda>d col. clean_numeric_column conv col d) (fst st) numeric_columns, snd st))"

section \<open>Joins\<close>

text \<open>
  \<^verbatim>\<open>left.merge(right, how='left', ...)\<close>: the rows of the left frame in their order; a left
  row with no partner is kept once with missing values in the right frame's columns, a
  left row with partners is repeated once per partner, in the right frame's order. Key
  cells that are both missing count as equal, as pandas joins them. With \<^verbatim>\<open>on=\<close> the key
  columns appear once; with \<^verbatim>\<open>left_on=\<close>, \<^verbatim>\<open>right_on=\<close> the right key columns are kept
  too. (Renaming of equally named non-key columns by suffix is left out: the frames here
  share no other column.) A key column that does not exist is a \<^verbatim>\<open>KeyError\<close>.
\<close>

definition key_eq :: "'n cell \<Rightarrow> 'n cell \<Rightarrow> bool" where
  "key_eq a b = (a = b \<or> (isna a \<and> isna b))"

definition keys_match :: "nat list \<Rightarrow> nat list \<Rightarrow> 'n cell list \<Rightarrow> 'n cell list \<Rightarrow> bool" where
  "keys_match li ri l r = list_all2 key_eq (map (cell_at l) li) (map (cell_at r) ri)"

definition merge_left ::
  "'n dataframe \<Rightarrow> 'n dataframe \<Rightarrow> string list \<Rightarrow> string list \<Rightarrow> error + 'n dataframe" where
  "merge_left left right left_on right_on =
     (case (those (map (col_index (columns left)) left_on),
            those (map (col_index (columns right)) right_on)) of
        (Some li, Some ri) \<Rightarrow>
          (let keep = (if left_on = right_on
                       then filter (\<lambda>j. j \<notin> set ri) [0..<length (columns right)]
                       else [0..<length (columns right)])
           in Inr \<lparr>columns = columns left @ map (\<lambda>j. columns right ! j) keep,
                   rows = concat (map (\<lambda>l.
                     case filter (keys_match li ri l) (rows right) of
                       [] \<Rightarrow> [l @ replicate (length keep) (Missing NaN)]
                     | ms \<Rightarrow> map (\<lambda>m. l @ map (cell_at m) keep) ms) (rows left))\<rparr>)
      | _ \<Rightarrow> Inl KeyError)"

text \<open>\<^verbatim>\<open>df.drop(columns=[c])\<close>: every column of that name goes; none is a \<^verbatim>\<open>KeyError\<close>.\<close>

fun drop_named :: "string \<Rightarrow> string list \<Rightarrow> 'a list \<Rightarrow> 'a list" where
  "drop_named c (n # ns) (x # xs) = (if n = c then drop_named c ns xs else x # drop_named c ns xs)"
| "drop_named c ns xs = xs"

definition drop_column :: "string \<Rightarrow> 'n dataframe \<Rightarrow> error + 'n dataframe" where
  "drop_column c df =
     (if c \<in> set (columns df)
      then Inr \<lparr>columns = filter (\<lambda>n. n \<noteq> c) (columns df),
               rows = map (drop_named c (columns df)) (rows df)\<rparr>
      else Inl KeyError)"

text \<open>
  The tier lookup join of \<^verbatim>\<open>main\<close>:
  \<^verbatim>\<open>
  result_df = result_df.merge(tier_df, how='left', left_on='exportedLender', right_on='Lender')
  result_df = result_df.drop(columns=['Lender'])
  \<close>
\<close>

definition tier_join :: "'n dataframe \<Rightarrow> 'n dataframe \<Rightarrow> error + 'n dataframe" where
  "tier_join result_df tier_df =
     (case merge_left result_df tier_df [''exportedLender''] [''Lender''] of
        Inl e \<Rightarrow> Inl e
      | Inr merged \<Rightarrow> drop_column ''Lender'' merged)"

section \<open>Ranking engine\<close>

text \<open>
  \<^verbatim>\<open>prepare_rank_data(result_df, current_month, one_month_before, two_months_before)\<close>.
  The time column holds offset-naive UTC timestamps or \<^verbatim>\<open>NaT\<close>: the function's first step
  converts a zoned column to UTC and drops the zone, and the cells here are the times after
  that step. On a column with a text or a number in it the \<^verbatim>\<open>.dt\<close> accessor of that
  first step raises \<^verbatim>\<open>AttributeError\<close>; a column the function names and the frame does
  not have is a \<^verbatim>\<open>KeyError\<close>. The month of a missing time is no month, and equals none of
  the three target months.
\<close>

definition has_dt :: "'n cell \<Rightarrow> bool" where
  "has_dt x = (case x of Ts t \<Rightarrow> True | Missing k \<Rightarrow> True | _ \<Rightarrow> False)"

definition month_of :: "'n cell \<Rightarrow> period option" where
  "month_of x = (case x of Ts t \<Rightarrow> Some (to_period t) | _ \<Rightarrow> None)"

text \<open>The mask of the last three months.\<close>

definition in_window :: "period \<Rightarrow> period \<Rightarrow> period \<Rightarrow> 'n cell \<Rightarrow> bool" where
  "in_window cur one two x =
     (month_of x = Some cur \<or> month_of x = Some one \<or> month_of x = Some two)"

text \<open>
  \<^verbatim>\<open>groupby(['Tier', 'exportedLender', month])['scenarioId'].count()\<close>: one row per key
  that occurs among the filtered rows, rows with a missing key cell left out, and the count
  of the group's rows whose scenarioId is not missing. pandas orders the groups by key; the
  rows are listed here once per key in an order of occurrence, which the ranks and the
  final join do not depend on.
\<close>

type_synonym 'n group_key = "'n cell \<times> 'n cell \<times> period option"

definition group_key :: "nat \<Rightarrow> nat \<Rightarrow> nat \<Rightarrow> 'n cell list \<Rightarrow> 'n group_key" where
  "group_key iT iL it r = (cell_at r iT, cell_at r iL, month_of (cell_at r it))"

definition grouped_rows ::
  "nat \<Rightarrow> nat \<Rightarrow> nat \<Rightarrow> period \<Rightarrow> period \<Rightarrow> period \<Rightarrow> 'n cell list list \<Rightarrow> 'n cell list list" where
  "grouped_rows iT iL it cur one two rs =
     filter (\<lambda>r. \<not> isna (cell_at r iT) \<and> \<not> isna (cell_at r iL))
       (filter (\<lambda>r. in_window cur one two (cell_at r it)) rs)"

definition count_df ::
  "nat \<Rightarrow> nat \<Rightarrow> nat \<Rightarrow> nat \<Rightarrow> period \<Rightarrow> period \<Rightarrow> period \<Rightarrow> 'n cell list list
     \<Rightarrow> ('n group_key \<times> nat) list" where
  "count_df iT iL it iS cur one two rs =
     (let g = grouped_rows iT iL it cur one two rs in
      map (\<lambda>k. (k, length (filter (\<lambda>r. group_key iT iL it r = k \<and> \<not> isna (cell_at r iS)) g)))
        (remdups (map (group_key iT iL it) g)))"

text \<open>
  \<^verbatim>\<open>count_df.groupby(['Tier', 'Month'])['scenario_count'].rank(ascending=False, method='min')\<close>:
  every row is ranked among the rows of its tier and month.
\<close>

definition tier_month_counts :: "('n group_key \<times> nat) list \<Rightarrow> 'n cell \<Rightarrow> period option \<Rightarrow> nat list" where
  "tier_month_counts cdf t m =
     map snd (filter (\<lambda>row. fst (fst row) = t \<and> snd (snd (fst row)) = m) cdf)"

definition rank_in_tier :: "('n group_key \<times> nat) list \<Rightarrow> ('n group_key \<times> nat \<times> nat) list" where
  "rank_in_tier cdf =
     map (\<lambda>row. (fst row, snd row,
                 rank_min_desc (tier_month_counts cdf (fst (fst row)) (snd (snd (fst row)))) (snd row)))
       cdf"

text \<open>
  \<^verbatim>\<open>pivot_table(index=['Tier', 'exportedLender'], columns='Month', values=[...], fill_value=0)\<close>:
  one row per tier and entity of \<open>count_df\<close>, one rank column per month that occurs in
  \<open>count_df\<close>. A cell is the mean of the ranks of the rows with that tier, entity and month:
  there is one such row at most, so the mean is its rank, and where there is none the cell
  is \<^verbatim>\<open>fill_value\<close>, the number 0.
\<close>

definition pivot_index :: "('n group_key \<times> nat \<times> nat) list \<Rightarrow> ('n cell \<times> 'n cell) list" where
  "pivot_index ranked = remdups (map (\<lambda>row. (fst (fst row), fst (snd (fst row)))) ranked)"

definition pivot_months :: "('n group_key \<times> nat \<times> nat) list \<Rightarrow> period option list" where
  "pivot_months ranked = remdups (map (\<lambda>row. snd (snd (fst row))) ranked)"

definition pivot_rank ::
  "('n group_key \<times> nat \<times> nat) list \<Rightarrow> 'n cell \<times> 'n cell \<Rightarrow> period \<Rightarrow> nat" where
  "pivot_rank ranked e m =
     (case find (\<lambda>row. fst row = (fst e, snd e, Some m)) ranked of
        None \<Rightarrow> 0
      | Some row \<Rightarrow> snd (snd row))"

text \<open>
  The renaming gives the rank column of the month \<open>one\<close> the name
  \<^verbatim>\<open>rank_in_tier_one_month\<close> and that of \<open>two\<close> the name \<^verbatim>\<open>rank_in_tier_two_months\<close> (one
  dictionary entry per month name, so equal months leave the first name unused). The
  selection \<^verbatim>\<open>pivot_df[['Tier', 'exportedLender', 'rank_in_tier_one_month',
  'rank_in_tier_two_months']]\<close> raises \<^verbatim>\<open>KeyError\<close> when one of the two columns does not
  exist, which is when its month does not occur in \<open>count_df\<close>.
\<close>

definition rank_columns :: "string list" where
  "rank_columns = [''rank_in_tier_one_month'', ''rank_in_tier_two_months'']"

definition pivot_selected ::
  "('n group_key \<times> nat \<times> nat) list \<Rightarrow> period \<Rightarrow> period \<Rightarrow> error + ('n::semiring_1) dataframe" where
  "pivot_selected ranked one two =
     (if one \<noteq> two \<and> Some one \<in> set (pivot_months ranked) \<and> Some two \<in> set (pivot_months ranked)
      then Inr \<lparr>columns = [''Tier'', ''exportedLender''] @ rank_columns,
               rows = map (\<lambda>e. [fst e, snd e,
                                  Num (of_nat (pivot_rank ranked e one)),
                                  Num (of_nat (pivot_rank ranked e two))])
                          (pivot_index ranked)\<rparr>
      else Inl KeyError)"

definition prepare_rank_data ::
  "('n::semiring_1) dataframe \<Rightarrow> timestamp \<Rightarrow> timestamp \<Rightarrow> timestamp \<Rightarrow> error + 'n dataframe" where
  "prepare_rank_data result_df current_month_ts one_month_ts two_months_ts =
     (case col_index (columns result_df) ''time'' of
        None \<Rightarrow> Inl KeyError
      | Some it \<Rightarrow>
          if \<not> list_all (\<lambda>r. has_dt (cell_at r it)) (rows result_df) then Inl AttributeError
          else
            (case (col_index (columns result_df) ''Tier'',
                   col_index (columns result_df) ''exportedLender'',
                   col_index (columns result_df) ''scenarioId'') of
               (Some iT, Some iL, Some iS) \<Rightarrow>
                 (let cur = to_period current_month_ts;
                      one = to_period one_month_ts;
                      two = to_period two_months_ts;
                      ranked = rank_in_tier (count_df iT iL it iS cur one two (rows result_df))
                  in case pivot_selected ranked one two of
                       Inl e \<Rightarrow> Inl e
                     | Inr pivot_df \<Rightarrow>
                         merge_left result_df pivot_df [''Tier'', ''exportedLender'']
                           [''Tier'', ''exportedLender''])
             | _ \<Rightarrow> Inl KeyError))"

section \<open>Tabular exporter\<close>

text \<open>
  \<^verbatim>\<open>df.to_csv(path, index=False, encoding='utf-8-sig', sep='\t', quoting=csv.QUOTE_ALL,
  na_rep='', date_format=..., lineterminator='\n', escapechar='\\', doublequote=True)\<close>
  writes a byte order mark, the header row and one row per record through Python's
  \<^verbatim>\<open>csv.writer\<close>. A missing value is written as \<^verbatim>\<open>na_rep\<close>, a text as it is, a number
  as printed and a timestamp in the date format. Every field is put between quotes; in a
  field a quote is doubled and the escape character is escaped by itself (Python 3.10 and
  later). Texts are lists of the bytes of their UTF-8 form.
\<close>

definition render_cell :: "'n conv \<Rightarrow> 'n cell \<Rightarrow> string" where
  "render_cell conv x =
     (case x of
        Missing k \<Rightarrow> []
      | Str s \<Rightarrow> s
      | Num n \<Rightarrow> num_str conv n
      | Ts t \<Rightarrow> csv_ts conv t)"

definition escape_char :: "char \<Rightarrow> string" where
  "escape_char c =
     (if c = dquote then [dquote, dquote]
      else if c = backslash then [backslash, backslash]
      else [c])"

definition quote_field :: "string \<Rightarrow> string" where
  "quote_field s = dquote # concat (map escape_char s) @ [dquote]"

fun join_tab :: "string list \<Rightarrow> string" where
  "join_tab [] = []"
| "join_tab [x] = x"
| "join_tab (x # y # ys) = x @ tab # join_tab (y # ys)"

definition write_row :: "string list \<Rightarrow> string" where
  "write_row fs = join_tab (map quote_field fs) @ [LF]"

definition bom :: string where
  "bom = [CHR 0xEF, CHR 0xBB, CHR 0xBF]"

definition to_csv :: "'n conv \<Rightarrow> 'n dataframe \<Rightarrow> string" where
  "to_csv conv df =
     bom @ write_row (columns df) @ concat (map (\<lambda>r. write_row (map (render_cell conv) r)) (rows df))"

text \<open>
  The check after writing opens the file with \<^verbatim>\<open>open(path, 'r', encoding='utf-8-sig')\<close>:
  the byte order mark is taken off, every carriage return (with a linefeed after it or
  alone) is read as a linefeed, and the text is handed over line by line.
\<close>

definition decode_sig :: "string \<Rightarrow> string" where
  "decode_sig bs = (if take 3 bs = bom then drop 3 bs else bs)"

fun translate_newlines :: "string \<Rightarrow> string" where
  "translate_newlines (c # d # cs) =
     (if c = CR then (if d = LF then LF # translate_newlines cs else LF # translate_newlines (d # cs))
      else c # translate_newlines (d # cs))"
| "translate_newlines [c] = [if c = CR then LF else c]"
| "translate_newlines [] = []"

fun split_lines :: "string \<Rightarrow> string list" where
  "split_lines [] = []"
| "split_lines (c # cs) =
     (if c = LF then [LF] # split_lines cs
      else (case split_lines cs of [] \<Rightarrow> [[c]] | l # ls \<Rightarrow> (c # l) # ls))"

definition file_lines :: "string \<Rightarrow> string list" where
  "file_lines content = split_lines (translate_newlines (decode_sig content))"

text \<open>
  \<^verbatim>\<open>csv.reader(f, delimiter='\t')\<close>: the reader of Python's \<^verbatim>\<open>csv\<close> module with the quote
  character \<^verbatim>\<open>"\<close>, doubled quotes, no escape character and not strict. It is a state
  machine over the characters of a line, with an end-of-line event (\<open>None\<close>) after each
  line; a record is complete when the machine is back at the start of a record after a
  line. The states of an escape character cannot be reached and are left out. A field
  may grow to the reader's field size limit of 131072 characters, counted here in bytes;
  one character more is an error of the reader.
\<close>

datatype parser_state =
  START_RECORD | START_FIELD | IN_FIELD | IN_QUOTED_FIELD | QUOTE_IN_QUOTED_FIELD | EAT_CRNL

record reader =
  rd_state :: parser_state
  rd_field :: string
  rd_fields :: "string list"

definition save_field :: "reader \<Rightarrow> reader" where
  "save_field rd = rd\<lparr>rd_fields := rd_fields rd @ [rd_field rd], rd_field := []\<rparr>"

definition field_limit :: nat where
  "field_limit = 131072"

definition add_char :: "char \<Rightarrow> reader \<Rightarrow> error + reader" where
  "add_char c rd =
     (if field_limit \<le> length (rd_field rd) then Inl CsvError
      else Inr (rd\<lparr>rd_field := rd_field rd @ [c]\<rparr>))"

definition then_state :: "error + reader \<Rightarrow> parser_state \<Rightarrow> error + reader" where
  "then_state r s = (case r of Inl e \<Rightarrow> Inl e | Inr rd \<Rightarrow> Inr (rd\<lparr>rd_state := s\<rparr>))"

definition start_field :: "reader \<Rightarrow> char option \<Rightarrow> error + reader" where
  "start_field rd c =
     (case c of
        None \<Rightarrow> Inr ((save_field rd)\<lparr>rd_state := START_RECORD\<rparr>)
      | Some ch \<Rightarrow>
          if ch = LF \<or> ch = CR then Inr ((save_field rd)\<lparr>rd_state := EAT_CRNL\<rparr>)
          else if ch = dquote then Inr (rd\<lparr>rd_state := IN_QUOTED_FIELD\<rparr>)
          else if ch = tab then Inr ((save_field rd)\<lparr>rd_state := START_FIELD\<rparr>)
          else then_state (add_char ch rd) IN_FIELD)"

definition process_char :: "reader \<Rightarrow> char option \<Rightarrow> error + reader" where
  "process_char rd c =
     (case rd_state rd of
        START_RECORD \<Rightarrow>
          (case c of
             None \<Rightarrow> Inr rd
           | Some ch \<Rightarrow>
               if ch = LF \<or> ch = CR then Inr (rd\<lparr>rd_state := EAT_CRNL\<rparr>) else start_field rd c)
      | START_FIELD \<Rightarrow> start_field rd c
      | IN_FIELD \<Rightarrow>
          (case c of
             None \<Rightarrow> Inr ((save_field rd)\<lparr>rd_state := START_RECORD\<rparr>)
           | Some ch \<Rightarrow>
               if ch = LF \<or> ch = CR then Inr ((save_field rd)\<lparr>rd_state := EAT_CRNL\<rparr>)
               else if ch = tab then Inr ((save_field rd)\<lparr>rd_state := START_FIELD\<rparr>)
               else add_char ch rd)
      | IN_QUOTED_FIELD \<Rightarrow>
          (case c of
             None \<Rightarrow> Inr rd
           | Some ch \<Rightarrow>
               if ch = dquote then Inr (rd\<lparr>rd_state := QUOTE_IN_QUOTED_FIELD\<rparr>)
               else add_char ch rd)
      | QUOTE_IN_QUOTED_FIELD \<Rightarrow>
          (case c of
             None \<Rightarrow> Inr ((save_field rd)\<lparr>rd_state := START_RECORD\<rparr>)
           | Some ch \<Rightarrow>
               if ch = dquote then then_state (add_char ch rd) IN_QUOTED_FIELD
               else if ch = tab then Inr ((save_field rd)\<lparr>rd_state := START_FIELD\<rparr>)
               else if ch = LF \<or> ch = CR then Inr ((save_field rd)\<lparr>rd_state := EAT_CRNL\<rparr>)
               else then_state (add_char ch rd) IN_FIELD)
      | EAT_CRNL \<Rightarrow>
          (case c of
             None \<Rightarrow> Inr (rd\<lparr>rd_state := START_RECORD\<rparr>)
           | Some ch \<Rightarrow> if ch = LF \<or> ch = CR then Inr rd else Inl CsvError))"

fun process_line :: "reader \<Rightarrow> string \<Rightarrow> error + reader" where
  "process_line rd [] = process_char rd None"
| "process_line rd (c # cs) =
     (case process_char rd (Some c) of Inl e \<Rightarrow> Inl e | Inr rd' \<Rightarrow> process_line rd' cs)"

text \<open>
  \<^verbatim>\<open>next(csv_reader)\<close> on the lines still unread: \<open>None\<close> is \<^verbatim>\<open>StopIteration\<close>, otherwise
  an error of the reader or a record and the lines after it.
\<close>

fun read_record :: "reader \<Rightarrow> string list \<Rightarrow> (error + string list \<times> string list) option" where
  "read_record rd [] =
     (if rd_field rd \<noteq> [] \<or> rd_state rd = IN_QUOTED_FIELD
      then Some (Inr (rd_fields (save_field rd), []))
      else None)"
| "read_record rd (l # ls) =
     (case process_line rd l of
        Inl e \<Rightarrow> Some (Inl e)
      | Inr rd' \<Rightarrow>
          if rd_state rd' = START_RECORD then Some (Inr (rd_fields rd', ls))
          else read_record rd' ls)"

definition reader_next :: "string list \<Rightarrow> (error + string list \<times> string list) option" where
  "reader_next ls = read_record \<lparr>rd_state = START_RECORD, rd_field = [], rd_fields = []\<rparr> ls"

text \<open>
  \<^verbatim>\<open>save_to_csv\<close> writes the file and checks it:
  \<^verbatim>\<open>
  header = next(csv_reader)
  expected_columns = df.columns.tolist()
  if header != expected_columns: print("Warning: CSV header mismatch ...")
  else: print("CSV header validated ...")
  first_row = next(csv_reader, None)
  if first_row and len(first_row) != len(expected_columns):
      print("Warning: CSV row length mismatch ...")
  \<close>
  with every exception of the check caught and printed. The result is the file's content
  and the messages of the check.
\<close>

datatype validation =
  HeaderValidated | HeaderMismatch "string list" | RowLengthMismatch nat | ErrorValidating error

definition validate_csv :: "string list \<Rightarrow> string \<Rightarrow> validation list" where
  "validate_csv expected_columns content =
     (case reader_next (file_lines content) of
        None \<Rightarrow> [ErrorValidating StopIteration]
      | Some (Inl e) \<Rightarrow> [ErrorValidating e]
      | Some (Inr (header, rest)) \<Rightarrow>
          (if header \<noteq> expected_columns then [HeaderMismatch header] else [HeaderValidated]) @
          (case reader_next rest of
             None \<Rightarrow> []
           | Some (Inl e) \<Rightarrow> [ErrorValidating e]
           | Some (Inr (first_row, rest')) \<Rightarrow>
               if first_row \<noteq> [] \<and> length first_row \<noteq> length expected_columns
               then [RowLengthMismatch (length first_row)] else []))"

definition save_to_csv :: "'n conv \<Rightarrow> 'n dataframe \<Rightarrow> string \<times> validation list" where
  "save_to_csv conv df =
     (let content = to_csv conv df in (content, validate_csv (columns df) content))"

section \<open>Pipeline driver\<close>

text \<open>
  \<^verbatim>\<open>main\<close> of \<^verbatim>\<open>run_exports_query.py\<close>. What the run finds outside the program is its
  environment: whether the paths validate and the query file can be read, whether the
  connection opens, the list of lenders, whether the query template can be filled in for
  a lender, the result of the query for a lender, and what reading
  \<^verbatim>\<open>competitor-list.csv\<close> gives (a frame, or the exception of \<^verbatim>\<open>pd.read_csv\<close>).
  \<^verbatim>\<open>
  validate_paths(...)
  con = duckdb.connect(...)            # failure: ConnectionError
  try:
      lenders = get_lenders(con)
      for lender in lenders:
          lender_name = lender[0]
          query = sql_query.format(start_date=..., end_date=..., lender_name=lender_name)
          try:
              result_df = con.execute(query).fetchdf()
              tier_df = pd.read_csv('competitor-list.csv')
              result_df = result_df.merge(tier_df, how='left', left_on='exportedLender', right_on='Lender')
              result_df = result_df.drop(columns=['Lender'])
              result_df = prepare_rank_data(result_df, current_month, one_month_before, two_months_before)
              result_df = clean_dataframe(result_df)
              output_path = os.path.join(output_dir, f"results_{lender_name}.csv")
              save_to_csv(result_df, output_path)
          except Exception as e:
              print(f"Error running query for {lender_name}: {str(e)}")
  finally:
      con.close()
  \<close>
  The run ends with an exception (\<open>Inl\<close>) or normally, with the files written and, for
  every lender tried, what happened to it. Filling in the template happens outside the
  handler of the lender, so its exception ends the run; writing a file is taken to succeed.
\<close>

record 'n env =
  validate_paths :: "error option"
  connect :: "error option"
  get_lenders :: "error + string list"
  format_query :: "string \<Rightarrow> error option"
  run_query :: "string \<Rightarrow> error + 'n dataframe"
  read_tier_csv :: "error + 'n dataframe"
  report_date :: timestamp
  output_dir :: string

datatype outcome = Exported string "warning list" "validation list" | Failed error

record run_result =
  files :: "(string \<times> string) list"
  log :: "(string \<times> outcome) list"

definition output_path :: "string \<Rightarrow> string \<Rightarrow> string" where
  "output_path dir lender_name = dir @ ''/results_'' @ lender_name @ ''.csv''"

definition process_lender ::
  "('n::semiring_1) conv \<Rightarrow> 'n env \<Rightarrow> string \<Rightarrow> error + (string \<times> string) \<times> outcome" where
  "process_lender conv env lender_name =
     (case run_query env lender_name of
        Inl e \<Rightarrow> Inl e
      | Inr result_df \<Rightarrow>
     (case read_tier_csv env of
        Inl e \<Rightarrow> Inl e
      | Inr tier_df \<Rightarrow>
     (case tier_join result_df tier_df of
        Inl e \<Rightarrow> Inl e
      | Inr joined \<Rightarrow>
     (case prepare_rank_data joined (current_month (report_date env))
             (one_month_before (report_date env)) (two_months_before (report_date env)) of
        Inl e \<Rightarrow> Inl e
      | Inr ranked \<Rightarrow>
          (let cleaned = clean_dataframe conv ranked;
               path = output_path (output_dir env) lender_name;
               saved = save_to_csv conv (fst cleaned)
           in Inr ((path, fst saved), Exported path (snd cleaned) (snd saved)))))))"

fun process_lenders ::
  "('n::semiring_1) conv \<Rightarrow> 'n env \<Rightarrow> string list \<Rightarrow> run_result \<Rightarrow> error + run_result" where
  "process_lenders conv env [] res = Inr res"
| "process_lenders conv env (lender # lenders) res =
     (case format_query env lender of
        Some e \<Rightarrow> Inl e
      | None \<Rightarrow>
          process_lenders conv env lenders
            (case process_lender conv env lender of
               Inl e \<Rightarrow> res\<lparr>log := log res @ [(lender, Failed e)]\<rparr>
             | Inr (file, out) \<Rightarrow>
                 res\<lparr>files := files res @ [file], log := log res @ [(lender, out)]\<rparr>))"

definition main :: "('n::semiring_1) conv \<Rightarrow> 'n env \<Rightarrow> error + run_result" where
  "main conv env =
     (case validate_paths env of
        Some e \<Rightarrow> Inl e
      | None \<Rightarrow>
     (case connect env of
        Some e \<Rightarrow> Inl ConnectionError
      | None \<Rightarrow>
     (case get_lenders env of
        Inl e \<Rightarrow> Inl RuntimeError
      | Inr lenders \<Rightarrow> process_lenders conv env lenders \<lparr>files = [], log = []\<rparr>)))"

section \<open>Notions used in the proofs\<close>

text \<open>A function of column name and cell applied along a row, position by position.\<close>

fun apply_named :: "(string \<Rightarrow> 'a \<Rightarrow> 'a) \<Rightarrow> string list \<Rightarrow> 'a list \<Rightarrow> 'a list" where
  "apply_named g (n # ns) (x # xs) = g n x # apply_named g ns xs"
| "apply_named g ns xs = xs"

text \<open>What \<^verbatim>\<open>clean_dataframe\<close> does to a cell of the column \<open>n\<close>, in the order of its passes.\<close>

definition cleaned_cell :: "'n conv \<Rightarrow> string \<Rightarrow> 'n cell \<Rightarrow> 'n cell" where
  "cleaned_cell conv n x =
     (let x1 = (if n = ''time'' then astype_str conv x else x);
          x2 = (if n \<in> set string_columns then clean_string conv x1 else x1)
      in if n \<in> set numeric_columns then to_numeric conv x2 else x2)"

text \<open>
  The two rank cells that the final join of \<^verbatim>\<open>prepare_rank_data\<close> puts after a record
  with the tier and entity \<open>e\<close>.
\<close>

definition rank_cells ::
  "('n group_key \<times> nat \<times> nat) list \<Rightarrow> period \<Rightarrow> period \<Rightarrow> 'n cell \<times> 'n cell
     \<Rightarrow> ('n::semiring_1) cell list" where
  "rank_cells ranked one two e =
     (if e \<in> set (pivot_index ranked)
      then [Num (of_nat (pivot_rank ranked e one)), Num (of_nat (pivot_rank ranked e two))]
      else [Missing NaN, Missing NaN])"

text \<open>
  The qualifying records of the entity \<open>l\<close> of tier \<open>t\<close>: the records of the frame that
  the monthly aggregate counts for it (tier and entity present, time in one of the three
  target months), and those of them that fall in the month \<open>m\<close>.
\<close>

definition qualifying_records ::
  "nat \<Rightarrow> nat \<Rightarrow> nat \<Rightarrow> period \<Rightarrow> period \<Rightarrow> period \<Rightarrow> 'n cell list list
     \<Rightarrow> 'n cell \<Rightarrow> 'n cell \<Rightarrow> 'n cell list list" where
  "qualifying_records iT iL it cur one two rs t l =
     filter (\<lambda>r. cell_at r iT = t \<and> cell_at r iL = l) (grouped_rows iT iL it cur one two rs)"

definition qualifying_in_month ::
  "nat \<Rightarrow> nat \<Rightarrow> nat \<Rightarrow> period \<Rightarrow> period \<Rightarrow> period \<Rightarrow> 'n cell list list
     \<Rightarrow> 'n cell \<Rightarrow> 'n cell \<Rightarrow> period \<Rightarrow> 'n cell list list" where
  "qualifying_in_month iT iL it cur one two rs t l m =
     filter (\<lambda>r. month_of (cell_at r it) = Some m) (qualifying_records iT iL it cur one two rs t l)"

text \<open>
  What the check reads back for a written field: the carriage returns as linefeeds (the
  file is opened with universal newlines) and every backslash twice (the writer escapes
  it, the reader has no escape character).
\<close>

definition double_backslash :: "string \<Rightarrow> string" where
  "double_backslash s = concat (map (\<lambda>c. if c = backslash then [backslash, backslash] else [c]) s)"

definition read_back :: "string \<Rightarrow> string" where
  "read_back s = double_backslash (translate_newlines s)"

text \<open>The length of a list as an integer, for evaluating the field size limit.\<close>

definition int_length :: "'a list \<Rightarrow> int" where
  "int_length xs = int (length xs)"

section \<open>Example data\<close>

text \<open>Five records of tier 1 in June 2025: two of A, two of B, one of C.\<close>

definition rank_example_rows :: "int cell list list" where
  "rank_example_rows =
     [[Str ''1'', Str ''A'', Ts \<lparr>ts_year = 2025, ts_month = 6, ts_day = 3, ts_secs = 0\<rparr>, Str ''s1''],
      [Str ''1'', Str ''B'', Ts \<lparr>ts_year = 2025, ts_month = 6, ts_day = 4, ts_secs = 0\<rparr>, Str ''s2''],
      [Str ''1'', Str ''A'', Ts \<lparr>ts_year = 2025, ts_month = 6, ts_day = 9, ts_secs = 0\<rparr>, Str ''s3''],
      [Str ''1'', Str ''C'', Ts \<lparr>ts_year = 2025, ts_month = 6, ts_day = 9, ts_secs = 0\<rparr>, Str ''s4''],
      [Str ''1'', Str ''B'', Ts \<lparr>ts_year = 2025, ts_month = 6, ts_day = 30, ts_secs = 0\<rparr>, Str ''s5'']]"

text \<open>
  Conversions for the examples: numbers are integers printed in decimal, a text of digits
  is read as a number, and a timestamp is printed as \<^verbatim>\<open>YYYY-MM-DD HH:MM:SS\<close>, with the
  offset \<^verbatim>\<open>+0000\<close> after it in the export's date format.
\<close>

definition digit_char :: "nat \<Rightarrow> char" where
  "digit_char d = char_of (48 + d)"

fun dec :: "nat \<Rightarrow> string" where
  "dec n = (if n < 10 then [digit_char n] else dec (n div 10) @ [digit_char (n mod 10)])"

definition dec2 :: "nat \<Rightarrow> string" where
  "dec2 n = (if n < 10 then CHR ''0'' # dec n else dec n)"

definition int_str :: "int \<Rightarrow> string" where
  "int_str i = (if i < 0 then CHR ''-'' # dec (nat (- i)) else dec (nat i))"

definition is_digit :: "char \<Rightarrow> bool" where
  "is_digit c = (48 \<le> (of_char c :: nat) \<and> (of_char c :: nat) \<le> 57)"

definition read_int :: "string \<Rightarrow> int option" where
  "read_int s =
     (if s \<noteq> [] \<and> list_all is_digit s
      then Some (int (foldl (\<lambda>a c. 10 * a + ((of_char c :: nat) - 48)) 0 s))
      else None)"

definition stamp_str :: "timestamp \<Rightarrow> string" where
  "stamp_str t =
     int_str (ts_year t) @ ''-'' @ dec2 (nat (ts_month t)) @ ''-'' @ dec2 (nat (ts_day t)) @ '' ''
       @ dec2 (ts_secs t div 3600) @ '':'' @ dec2 (ts_secs t div 60 mod 60) @ '':''
       @ dec2 (ts_secs t mod 60)"

definition example_conv :: "int conv" where
  "example_conv =
     \<lparr>num_str = int_str, ts_str = stamp_str, to_num = read_int,
      csv_ts = (\<lambda>t. stamp_str t @ ''+0000'')\<rparr>"

text \<open>A frame with a list-shaped purpose, a quoted rate type and a non-numeric ratio.\<close>

definition messy_frame :: "int dataframe" where
  "messy_frame =
     \<lparr>columns = [''time'', ''loanPurpose'', ''rateType'', ''lvr''],
      rows = [[Ts \<lparr>ts_year = 2025, ts_month = 7, ts_day = 14, ts_secs = 3600\<rparr>,
               Str ''[buy,build]'', Str (dquote # ''fixed'' @ [dquote]), Str ''80''],
              [Missing NaT, Missing NaN, Str ''{a}'', Str ''n/a'']]\<rparr>"

text \<open>
  A query result joined with its tiers, for the report month 2025-08: A and B are of
  tier 1 and X has no tier; A has a record in July and one without a time, B has a record
  in June.
\<close>

definition aug_2025 :: timestamp where
  "aug_2025 = \<lparr>ts_year = 2025, ts_month = 8, ts_day = 1, ts_secs = 0\<rparr>"

definition jul_2025 :: timestamp where
  "jul_2025 = \<lparr>ts_year = 2025, ts_month = 7, ts_day = 1, ts_secs = 0\<rparr>"

definition jun_2025 :: timestamp where
  "jun_2025 = \<lparr>ts_year = 2025, ts_month = 6, ts_day = 1, ts_secs = 0\<rparr>"

definition query_frame :: "int dataframe" where
  "query_frame =
     \<lparr>columns = [''exportedLender'', ''time'', ''scenarioId'', ''performance''],
      rows = [[Str ''A'', Ts \<lparr>ts_year = 2025, ts_month = 7, ts_day = 10, ts_secs = 0\<rparr>, Str ''s1'', Str ''good''],
              [Str ''B'', Ts \<lparr>ts_year = 2025, ts_month = 6, ts_day = 5, ts_secs = 0\<rparr>, Str ''s2'', Missing NaN],
              [Str ''X'', Ts \<lparr>ts_year = 2025, ts_month = 7, ts_day = 11, ts_secs = 0\<rparr>, Str ''s3'', Str ''ok''],
              [Str ''A'', Missing NaT, Str ''s4'', Str ''ok'']]\<rparr>"

definition tier_frame :: "int dataframe" where
  "tier_frame =
     \<lparr>columns = [''Lender'', ''Tier''],
      rows = [[Str ''A'', Str ''1''], [Str ''B'', Str ''1'']]\<rparr>"

definition joined_frame :: "int dataframe" where
  "joined_frame =
     \<lparr>columns = [''exportedLender'', ''time'', ''scenarioId'', ''performance'', ''Tier''],
      rows = [[Str ''A'', Ts \<lparr>ts_year = 2025, ts_month = 7, ts_day = 10, ts_secs = 0\<rparr>, Str ''s1'', Str ''good'', Str ''1''],
              [Str ''B'', Ts \<lparr>ts_year = 2025, ts_month = 6, ts_day = 5, ts_secs = 0\<rparr>, Str ''s2'', Missing NaN, Str ''1''],
              [Str ''X'', Ts \<lparr>ts_year = 2025, ts_month = 7, ts_day = 11, ts_secs = 0\<rparr>, Str ''s3'', Str ''ok'', Missing NaN],
              [Str ''A'', Missing NaT, Str ''s4'', Str ''ok'', Str ''1'']]\<rparr>"

text \<open>A query result whose only record is of an entity without a tier.\<close>

definition untiered_frame :: "int dataframe" where
  "untiered_frame =
     \<lparr>columns = [''exportedLender'', ''time'', ''scenarioId'', ''performance''],
      rows = [[Str ''X'', Ts \<lparr>ts_year = 2025, ts_month = 7, ts_day = 11, ts_secs = 0\<rparr>, Str ''s3'', Str ''ok'']]\<rparr>"

text \<open>A tier-joined frame with records in July only.\<close>

definition july_frame :: "int dataframe" where
  "july_frame =
     \<lparr>columns = [''exportedLender'', ''time'', ''scenarioId'', ''Tier''],
      rows = [[Str ''A'', Ts \<lparr>ts_year = 2025, ts_month = 7, ts_day = 10, ts_secs = 0\<rparr>, Str ''s1'', Str ''1''],
              [Str ''B'', Ts \<lparr>ts_year = 2025, ts_month = 7, ts_day = 12, ts_secs = 0\<rparr>, Str ''s2'', Str ''1'']]\<rparr>"

text \<open>The ranked frame of the joined example, and a tier-joined frame without times.\<close>

definition ranked_frame :: "int dataframe" where
  "ranked_frame =
     \<lparr>columns = [''exportedLender'', ''time'', ''scenarioId'', ''performance'', ''Tier'',
                 ''rank_in_tier_one_month'', ''rank_in_tier_two_months''],
      rows = [[Str ''A'', Ts \<lparr>ts_year = 2025, ts_month = 7, ts_day = 10, ts_secs = 0\<rparr>, Str ''s1'', Str ''good'', Str ''1'', Num 1, Num 0],
              [Str ''B'', Ts \<lparr>ts_year = 2025, ts_month = 6, ts_day = 5, ts_secs = 0\<rparr>, Str ''s2'', Missing NaN, Str ''1'', Num 0, Num 1],
              [Str ''X'', Ts \<lparr>ts_year = 2025, ts_month = 7, ts_day = 11, ts_secs = 0\<rparr>, Str ''s3'', Str ''ok'', Missing NaN, Missing NaN, Missing NaN],
              [Str ''A'', Missing NaT, Str ''s4'', Str ''ok'', Str ''1'', Num 1, Num 0]]\<rparr>"

definition undated_frame :: "int dataframe" where
  "undated_frame =
     \<lparr>columns = [''exportedLender'', ''time'', ''scenarioId'', ''Tier''],
      rows = [[Str ''A'', Missing NaT, Str ''s1'', Str ''1'']]\<rparr>"

text \<open>A run for the single lender X, whose query result holds no entity with a tier.\<close>

definition untiered_env :: "int env" where
  "untiered_env =
     \<lparr>validate_paths = None, connect = None, get_lenders = Inr [''X''],
      format_query = (\<lambda>lender. None), run_query = (\<lambda>lender. Inr untiered_frame), read_tier_csv = Inr tier_frame,
      report_date = \<lparr>ts_year = 2025, ts_month = 8, ts_day = 28, ts_secs = 0\<rparr>,
      output_dir = ''output''\<rparr>"

text \<open>A run for the lenders A and B in which the tier table file cannot be read.\<close>

definition no_tier_env :: "int env" where
  "no_tier_env =
     \<lparr>validate_paths = None, connect = None, get_lenders = Inr [''A'', ''B''],
      format_query = (\<lambda>lender. None), run_query = (\<lambda>lender. Inr query_frame), read_tier_csv = Inl FileNotFoundError,
      report_date = \<lparr>ts_year = 2025, ts_month = 8, ts_day = 28, ts_secs = 0\<rparr>,
      output_dir = ''output''\<rparr>"

text \<open>Two frames with an unusual column name: one with a backslash, one with a carriage return.\<close>

definition backslash_frame :: "int dataframe" where
  "backslash_frame = \<lparr>columns = [[CHR ''a'', backslash, CHR ''b''], ''Tier''], rows = [[Str ''x'', Str ''1'']]\<rparr>"

definition cr_frame :: "int dataframe" where
  "cr_frame = \<lparr>columns = [[CHR ''a'', CR, CHR ''b''], ''Tier''], rows = [[Str ''x'', Str ''1'']]\<rparr>"

text \<open>A frame without records whose only column name is one character over the field size limit.\<close>

definition long_name_frame :: "int dataframe" where
  "long_name_frame = \<lparr>columns = [replicate 131073 (CHR ''a'')], rows = []\<rparr>"

section \<open>Properties\<close>

lemma takeWhile_neq_sorted_desc:
  "sorted (rev xs) \<Longrightarrow> v \<in> set xs \<Longrightarrow>
     takeWhile (\<lambda>x. x \<noteq> v) xs = filter (\<lambda>x. v < x) (xs :: nat list)"
proof (induction xs)
  case Nil
  then show ?case by simp
next
  case (Cons a xs)
  have le: "\<forall>x \<in> set xs. x \<le> a"
    using Cons.prems(1) by (auto simp: sorted_append)
  show ?case
  proof (cases "a = v")
    case True
    then have "filter (\<lambda>x. v < x) xs = []"
      using le by (auto simp: filter_empty_conv)
    with True show ?thesis by simp
  next
    case False
    then have "v \<in> set xs" using Cons.prems(2) by simp
    moreover have "sorted (rev xs)"
      using Cons.prems(1) by (simp add: sorted_append)
    ultimately have "takeWhile (\<lambda>x. x \<noteq> v) xs = filter (\<lambda>x. v < x) xs"
      by (rule Cons.IH[rotated])
    moreover have "v < a" using le \<open>v \<in> set xs\<close> False by fastforce
    ultimately show ?thesis using False by simp
  qed
qed

lemma rank_min_desc_greater:
  assumes "v \<in> set vs"
  shows "rank_min_desc vs v = 1 + length (filter (\<lambda>x. v < x) vs)"
proof -
  have "takeWhile (\<lambda>x. x \<noteq> v) (rev (sort vs)) = filter (\<lambda>x. v < x) (rev (sort vs))"
    using assms by (intro takeWhile_neq_sorted_desc) simp_all
  moreover have "length (filter (\<lambda>x. v < x) (rev (sort vs))) = length (filter (\<lambda>x. v < x) vs)"
  proof -
    have "mset (filter (\<lambda>x. v < x) (rev (sort vs))) = mset (filter (\<lambda>x. v < x) vs)"
      by simp
    then show ?thesis by (rule mset_eq_length)
  qed
  ultimately show ?thesis by (simp add: rank_min_desc_def)
qed

subsection \<open>Month arithmetic\<close>

lemma add_months_year:
  "ts_year (add_months t k) =
     (if ts_month t + k > 12 then ts_year t + 1
      else if ts_month t + k < 1 then ts_year t - 1 else ts_year t)"
  by (simp add: add_months_def Let_def)

lemma add_months_month:
  "ts_month (add_months t k) =
     (if ts_month t + k > 12 then ts_month t + k - 12
      else if ts_month t + k < 1 then ts_month t + k + 12 else ts_month t + k)"
  by (simp add: add_months_def Let_def)

text \<open>
  C4. For every report date (its month between 1 and 12), the reference month is the
  month of the report date, and the months one and two before it lie exactly one and two
  whole calendar months earlier, again with a month between 1 and 12, so that the year is
  carried at a year boundary. For a report date in 2025-08 they are 2025-07 and 2025-06, for
  one in 2025-01 they are 2024-12 and 2024-11.
\<close>

theorem month_arithmetic:
  "(1 \<le> ts_month d \<and> ts_month d \<le> 12 \<longrightarrow>
      to_period (current_month d) = to_period d
    \<and> month_index (to_period (one_month_before d)) = month_index (to_period d) - 1
    \<and> month_index (to_period (two_months_before d)) = month_index (to_period d) - 2
    \<and> snd (to_period (one_month_before d)) \<in> {1..12}
    \<and> snd (to_period (two_months_before d)) \<in> {1..12})
   \<and> to_period (one_month_before \<lparr>ts_year = 2025, ts_month = 8, ts_day = dd, ts_secs = s\<rparr>) = (2025, 7)
   \<and> to_period (two_months_before \<lparr>ts_year = 2025, ts_month = 8, ts_day = dd, ts_secs = s\<rparr>) = (2025, 6)
   \<and> to_period (one_month_before \<lparr>ts_year = 2025, ts_month = 1, ts_day = dd, ts_secs = s\<rparr>) = (2024, 12)
   \<and> to_period (two_months_before \<lparr>ts_year = 2025, ts_month = 1, ts_day = dd, ts_secs = s\<rparr>) = (2024, 11)"
  by (auto simp: one_month_before_def two_months_before_def sub_date_offset_months_def
      add_months_year add_months_month current_month_def month_index_def to_period_def)

theorem month_arithmetic_witness:
  "1 \<le> ts_month \<lparr>ts_year = 2024, ts_month = 2, ts_day = 29, ts_secs = 0\<rparr>
   \<and> ts_month \<lparr>ts_year = 2024, ts_month = 2, ts_day = 29, ts_secs = 0\<rparr> \<le> 12
   \<and> month_index (to_period (one_month_before \<lparr>ts_year = 2024, ts_month = 2, ts_day = 29, ts_secs = 0\<rparr>))
       = month_index (2024, 2) - 1
   \<and> month_index (to_period (two_months_before \<lparr>ts_year = 2024, ts_month = 2, ts_day = 29, ts_secs = 0\<rparr>))
       = month_index (2024, 2) - 2
   \<and> to_period (two_months_before \<lparr>ts_year = 2024, ts_month = 2, ts_day = 29, ts_secs = 0\<rparr>) = (2023, 12)"
  using month_arithmetic [of "\<lparr>ts_year = 2024, ts_month = 2, ts_day = 29, ts_secs = 0\<rparr>"]
  by (simp add: to_period_def two_months_before_def sub_date_offset_months_def
      add_months_year add_months_month current_month_def)

subsection \<open>Ranks within a tier and month\<close>

lemma distinct_count_df: "distinct (map fst (count_df iT iL it iS cur one two rs))"
  by (simp add: count_df_def Let_def comp_def)

lemma count_df_month:
  assumes "((t, l, m), c) \<in> set (count_df iT iL it iS cur one two rs)"
  shows "m = Some cur \<or> m = Some one \<or> m = Some two"
proof -
  from assms obtain r where "r \<in> set (grouped_rows iT iL it cur one two rs)"
    and "group_key iT iL it r = (t, l, m)"
    by (auto simp: count_df_def Let_def)
  then show ?thesis
    by (auto simp: grouped_rows_def group_key_def in_window_def)
qed

lemma rank_in_tier_iff:
  "(k, c, r) \<in> set (rank_in_tier cdf) \<longleftrightarrow>
     (k, c) \<in> set cdf \<and> r = rank_min_desc (tier_month_counts cdf (fst k) (snd (snd k))) c"
  by (force simp: rank_in_tier_def image_iff)

lemma greater_count_card:
  assumes d: "distinct (map fst cdf)"
  shows "length (filter (\<lambda>x. c < x) (tier_month_counts cdf t m))
           = card {l'. \<exists>c'. ((t, l', m), c') \<in> set cdf \<and> c < c'}"
proof -
  let ?P = "\<lambda>row. (fst (fst row) = t \<and> snd (snd (fst row)) = m) \<and> c < snd row"
  have dc: "distinct cdf" using d by (simp add: distinct_map)
  have inj: "inj_on fst (set cdf)" using d by (simp add: distinct_map)
  have "length (filter (\<lambda>x. c < x) (tier_month_counts cdf t m)) = length (filter ?P cdf)"
    by (simp add: tier_month_counts_def filter_map comp_def conj_commute)
  also have "\<dots> = card (set (filter ?P cdf))"
    using dc distinct_card[of "filter ?P cdf"] by simp
  also have "\<dots> = card ((\<lambda>row. fst (snd (fst row))) ` set (filter ?P cdf))"
  proof (rule card_image[symmetric], rule inj_onI)
    fix x y assume x: "x \<in> set (filter ?P cdf)" and y: "y \<in> set (filter ?P cdf)"
      and e: "fst (snd (fst x)) = fst (snd (fst y))"
    then have "fst x = fst y" by (auto simp: prod_eq_iff)
    with inj x y show "x = y" by (auto dest: inj_onD)
  qed
  also have "(\<lambda>row. fst (snd (fst row))) ` set (filter ?P cdf)
               = {l'. \<exists>c'. ((t, l', m), c') \<in> set cdf \<and> c < c'}"
    by (force simp: image_iff)
  finally show ?thesis .
qed

lemma tie_group_card:
  assumes d: "distinct (map fst cdf)"
  shows "length (filter (\<lambda>x. x = c) (tier_month_counts cdf t m))
           = card {l'. ((t, l', m), c) \<in> set cdf}"
proof -
  let ?P = "\<lambda>row. (fst (fst row) = t \<and> snd (snd (fst row)) = m) \<and> snd row = c"
  have dc: "distinct cdf" using d by (simp add: distinct_map)
  have inj: "inj_on fst (set cdf)" using d by (simp add: distinct_map)
  have "length (filter (\<lambda>x. x = c) (tier_month_counts cdf t m)) = length (filter ?P cdf)"
    by (simp add: tier_month_counts_def filter_map comp_def conj_commute)
  also have "\<dots> = card (set (filter ?P cdf))"
    using dc distinct_card[of "filter ?P cdf"] by simp
  also have "\<dots> = card ((\<lambda>row. fst (snd (fst row))) ` set (filter ?P cdf))"
  proof (rule card_image[symmetric], rule inj_onI)
    fix x y assume x: "x \<in> set (filter ?P cdf)" and y: "y \<in> set (filter ?P cdf)"
      and e: "fst (snd (fst x)) = fst (snd (fst y))"
    then have "fst x = fst y" by (auto simp: prod_eq_iff)
    with inj x y show "x = y" by (auto dest: inj_onD)
  qed
  also have "(\<lambda>row. fst (snd (fst row))) ` set (filter ?P cdf)
               = {l'. ((t, l', m), c) \<in> set cdf}"
    by (force simp: image_iff)
  finally show ?thesis .
qed

lemma count_in_tier_month:
  "((t, l, m), c) \<in> set cdf \<Longrightarrow> c \<in> set (tier_month_counts cdf t m)"
  by (force simp: tier_month_counts_def)

lemma next_rank_length:
  fixes vs :: "nat list"
  assumes "c2 < c" and "\<forall>x \<in> set vs. \<not> (c2 < x \<and> x < c)"
  shows "length (filter (\<lambda>x. c2 < x) vs)
           = length (filter (\<lambda>x. c < x) vs) + length (filter (\<lambda>x. x = c) vs)"
  using assms by (induction vs) auto


text \<open>
  C1. Every row of the monthly aggregate belongs to one of the three target months, and
  its rank is 1 plus the number of other entities of the same tier and month with a
  strictly greater count. Rows of the group with the same count have the same rank; the
  next smaller count that occurs in the group has that rank plus the number of entities
  tied at it; an entity alone in its group has rank 1; the counts 10, 10, 7 are ranked
  1, 1, 3.
\<close>

theorem rank_in_tier_competition:
  assumes "((t, l, m), c, r) \<in> set (rank_in_tier (count_df iT iL it iS cur one two rs))"
  shows "(m = Some cur \<or> m = Some one \<or> m = Some two)
    \<and> r = 1 + card {l'. l' \<noteq> l \<and> (\<exists>c'. ((t, l', m), c') \<in> set (count_df iT iL it iS cur one two rs) \<and> c < c')}
    \<and> (\<forall>l' r'. ((t, l', m), c, r') \<in> set (rank_in_tier (count_df iT iL it iS cur one two rs)) \<longrightarrow> r' = r)
    \<and> (\<forall>l2 c2 r2. ((t, l2, m), c2, r2) \<in> set (rank_in_tier (count_df iT iL it iS cur one two rs))
          \<and> c2 < c
          \<and> (\<forall>l3 c3. ((t, l3, m), c3) \<in> set (count_df iT iL it iS cur one two rs) \<longrightarrow> \<not> (c2 < c3 \<and> c3 < c))
          \<longrightarrow> r2 = r + card {l'. ((t, l', m), c) \<in> set (count_df iT iL it iS cur one two rs)})
    \<and> ((\<forall>l' c'. ((t, l', m), c') \<in> set (count_df iT iL it iS cur one two rs) \<longrightarrow> l' = l) \<longrightarrow> r = 1)
    \<and> rank_column [10, 10, 7] = [1, 1, 3]"
proof -
  let ?cdf = "count_df iT iL it iS cur one two rs"
  have d: "distinct (map fst ?cdf)" by (rule distinct_count_df)
  have mem: "((t, l, m), c) \<in> set ?cdf"
    and r: "r = rank_min_desc (tier_month_counts ?cdf t m) c"
    using assms by (simp_all add: rank_in_tier_iff)
  have uniq: "c' = c" if "((t, l, m), c') \<in> set ?cdf" for c'
    using d mem that by (meson eq_key_imp_eq_value)
  have rank: "rank_min_desc (tier_month_counts ?cdf t m) x
                = 1 + card {l'. \<exists>c'. ((t, l', m), c') \<in> set ?cdf \<and> x < c'}"
    if "((t, l0, m), x) \<in> set ?cdf" for l0 x
    using rank_min_desc_greater[OF count_in_tier_month[OF that]] greater_count_card[OF d]
    by simp
  have month: "m = Some cur \<or> m = Some one \<or> m = Some two"
    using mem by (rule count_df_month)
  have same: "{l'. l' \<noteq> l \<and> (\<exists>c'. ((t, l', m), c') \<in> set ?cdf \<and> c < c')}
                = {l'. \<exists>c'. ((t, l', m), c') \<in> set ?cdf \<and> c < c'}"
    using uniq by auto
  have formula: "r = 1 + card {l'. l' \<noteq> l \<and> (\<exists>c'. ((t, l', m), c') \<in> set ?cdf \<and> c < c')}"
    using rank[OF mem] r same by simp
  have ties: "\<forall>l' r'. ((t, l', m), c, r') \<in> set (rank_in_tier ?cdf) \<longrightarrow> r' = r"
    using r by (simp add: rank_in_tier_iff)
  have nxt: "\<forall>l2 c2 r2. ((t, l2, m), c2, r2) \<in> set (rank_in_tier ?cdf) \<and> c2 < c
          \<and> (\<forall>l3 c3. ((t, l3, m), c3) \<in> set ?cdf \<longrightarrow> \<not> (c2 < c3 \<and> c3 < c))
          \<longrightarrow> r2 = r + card {l'. ((t, l', m), c) \<in> set ?cdf}"
  proof (intro allI impI, elim conjE)
    fix l2 c2 r2
    assume a: "((t, l2, m), c2, r2) \<in> set (rank_in_tier ?cdf)" and lt: "c2 < c"
      and gap: "\<forall>l3 c3. ((t, l3, m), c3) \<in> set ?cdf \<longrightarrow> \<not> (c2 < c3 \<and> c3 < c)"
    have mem2: "((t, l2, m), c2) \<in> set ?cdf"
      and r2: "r2 = rank_min_desc (tier_month_counts ?cdf t m) c2"
      using a by (simp_all add: rank_in_tier_iff)
    have "\<forall>x \<in> set (tier_month_counts ?cdf t m). \<not> (c2 < x \<and> x < c)"
      using gap by (auto simp: tier_month_counts_def)
    from next_rank_length[OF lt this]
    have "length (filter (\<lambda>x. c2 < x) (tier_month_counts ?cdf t m))
            = length (filter (\<lambda>x. c < x) (tier_month_counts ?cdf t m))
              + card {l'. ((t, l', m), c) \<in> set ?cdf}"
      by (simp add: tie_group_card[OF d])
    then show "r2 = r + card {l'. ((t, l', m), c) \<in> set ?cdf}"
      using r r2 rank_min_desc_greater[OF count_in_tier_month[OF mem]]
        rank_min_desc_greater[OF count_in_tier_month[OF mem2]]
      by simp
  qed
  have single: "(\<forall>l' c'. ((t, l', m), c') \<in> set ?cdf \<longrightarrow> l' = l) \<longrightarrow> r = 1"
  proof
    assume one: "\<forall>l' c'. ((t, l', m), c') \<in> set ?cdf \<longrightarrow> l' = l"
    have "{l'. l' \<noteq> l \<and> (\<exists>c'. ((t, l', m), c') \<in> set ?cdf \<and> c < c')} = {}"
      using one by auto
    with formula show "r = 1" by simp
  qed
  have ex: "rank_column [10, 10, 7] = [1, 1, 3]"
    by (simp add: rank_column_def rank_min_desc_def)
  from month formula ties nxt single ex show ?thesis by blast
qed

theorem rank_in_tier_competition_witness:
  "((Str ''1'', Str ''C'', Some (2025, 6)), 1, 3)
     \<in> set (rank_in_tier (count_df 0 1 2 3 (2025, 8) (2025, 7) (2025, 6) rank_example_rows))
   \<and> (3::nat) = 1 + card {l'. l' \<noteq> Str ''C'' \<and>
         (\<exists>c'. ((Str ''1'', l', Some (2025, 6)), c')
                 \<in> set (count_df 0 1 2 3 (2025, 8) (2025, 7) (2025, 6) rank_example_rows) \<and> 1 < c')}"
proof -
  have h: "((Str ''1'', Str ''C'', Some (2025, 6)), 1, 3)
     \<in> set (rank_in_tier (count_df 0 1 2 3 (2025, 8) (2025, 7) (2025, 6) rank_example_rows))"
    by code_simp
  from rank_in_tier_competition[OF h] h show ?thesis by blast
qed

subsection \<open>Sanitizer\<close>

lemma map_named_apply: "map_named c f ns xs = apply_named (\<lambda>n x. if n = c then f x else x) ns xs"
  by (induction c f ns xs rule: map_named.induct) auto

lemma apply_named_comp:
  "apply_named g ns (apply_named h ns xs) = apply_named (\<lambda>n x. g n (h n x)) ns xs"
  by (induction h ns xs rule: apply_named.induct) auto

lemma apply_named_id: "apply_named (\<lambda>n x. x) ns xs = xs"
  by (induction "(\<lambda>(n::string) (x::'a). x)" ns xs rule: apply_named.induct) auto

lemma apply_named_cong:
  "(\<And>n x. n \<in> set ns \<Longrightarrow> g n x = h n x) \<Longrightarrow> apply_named g ns xs = apply_named h ns xs"
  by (induction g ns xs rule: apply_named.induct) auto

lemma length_apply_named [simp]: "length (apply_named g ns xs) = length xs"
  by (induction g ns xs rule: apply_named.induct) auto

lemma nth_apply_named:
  "i < length xs \<Longrightarrow>
     apply_named g ns xs ! i = (if i < length ns then g (ns ! i) (xs ! i) else xs ! i)"
proof (induction g ns xs arbitrary: i rule: apply_named.induct)
  case (1 g n ns x xs)
  then show ?case by (cases i) auto
qed auto

lemma map_column_apply:
  "map_column c f df = df\<lparr>rows := map (apply_named (\<lambda>n x. if n = c then f x else x) (columns df)) (rows df)\<rparr>"
  by (simp add: map_column_def map_named_apply)

lemma col_index_Some: "col_index ns c = Some i \<Longrightarrow> i < length ns \<and> ns ! i = c"
  by (induction ns arbitrary: i) (auto split: if_splits)

lemma col_index_None: "col_index ns c = None \<longleftrightarrow> c \<notin> set ns"
  by (induction ns) auto

lemma strip_chars_idem: "strip_chars (strip_chars s) = strip_chars s"
  by (simp add: strip_chars_def)

lemma strip_chars_free: "set (strip_chars s) \<inter> set stripped_chars = {}"
  by (auto simp: strip_chars_def)

lemma json_like_open: "json_like s \<Longrightarrow> CHR ''['' \<in> set s \<or> CHR ''{'' \<in> set s"
  by (induction s) auto

lemma clean_string_no_comma: "\<not> contains_comma (clean_string conv x)"
  by (simp add: contains_comma_def clean_string_def strip_chars_def stripped_chars_def)

lemma clean_string_no_json: "\<not> contains_json (clean_string conv x)"
proof
  assume "contains_json (clean_string conv x)"
  then have "json_like (strip_chars (str_of conv x))"
    by (simp add: contains_json_def clean_string_def)
  from json_like_open[OF this] show False
    by (simp add: strip_chars_def stripped_chars_def)
qed

lemma apply_named_notin:
  "c \<notin> set ns \<Longrightarrow> apply_named (\<lambda>n x. if n = c then f x else x) ns xs = xs"
  by (induction "\<lambda>(n::string) x. if n = c then f x else x" ns xs rule: apply_named.induct) auto

lemma apply_named_notin_id:
  "c \<notin> set ns \<Longrightarrow> apply_named (\<lambda>n x. if n = c then f x else x) ns = id"
  by (rule ext) (simp add: apply_named_notin)

lemma cleaned_column_cells:
  assumes "x \<in> set (column_cells (map_column col (clean_string conv) df) col)"
  shows "x = Missing NaN \<or> (\<exists>y. x = clean_string conv y)"
proof (cases "col_index (columns df) col")
  case None
  with assms show ?thesis by (simp add: column_cells_def map_column_def)
next
  case (Some i)
  with assms obtain r where "x = cell_at (map_named col (clean_string conv) (columns df) r) i"
    by (auto simp: column_cells_def map_column_def)
  with col_index_Some[OF Some] show ?thesis
    by (auto simp: cell_at_def map_named_apply nth_apply_named)
qed

lemma cleaned_column_quiet:
  assumes "x \<in> set (column_cells (map_column col (clean_string conv) df) col)"
  shows "\<not> contains_comma x \<and> \<not> contains_json x"
proof -
  from cleaned_column_cells[OF assms] show ?thesis
  proof
    assume "x = Missing NaN"
    then show ?thesis by (simp add: contains_comma_def contains_json_def)
  next
    assume "\<exists>y. x = clean_string conv y"
    then show ?thesis using clean_string_no_comma clean_string_no_json by blast
  qed
qed

lemma clean_string_column_warnings:
  "snd (clean_string_column conv col st) = snd st"
proof -
  have "\<not> list_ex id (map contains_comma (column_cells (map_column col (clean_string conv) (fst st)) col))"
    using cleaned_column_quiet[of _ col conv "fst st"] by (auto simp: list_ex_iff)
  moreover have "\<not> list_ex id (map contains_json (column_cells (map_column col (clean_string conv) (fst st)) col))"
    using cleaned_column_quiet[of _ col conv "fst st"] by (auto simp: list_ex_iff)
  ultimately show ?thesis
    by (simp add: clean_string_column_def Let_def)
qed

lemma clean_string_column_frame:
  "fst (clean_string_column conv col st) =
     (fst st)\<lparr>rows := map (apply_named (\<lambda>n x. if n = col then clean_string conv x else x) (columns (fst st)))
                        (rows (fst st))\<rparr>"
  by (cases "col \<in> set (columns (fst st))")
     (simp_all add: clean_string_column_def Let_def map_column_apply apply_named_notin_id)

lemma clean_numeric_column_frame:
  "clean_numeric_column conv col df =
     df\<lparr>rows := map (apply_named (\<lambda>n x. if n = col then to_numeric conv x else x) (columns df)) (rows df)\<rparr>"
  by (cases "col \<in> set (columns df)")
     (simp_all add: clean_numeric_column_def map_column_apply apply_named_notin_id)


lemma apply_named_id_fun: "apply_named (\<lambda>n x. x) ns = id"
  by (rule ext) (simp add: apply_named_id)

lemma foldl_once:
  "distinct cs \<Longrightarrow> foldl (\<lambda>x c. if n = c then f x else x) x cs = (if n \<in> set cs then f x else x)"
  by (induction cs arbitrary: x) auto

lemma foldl_string_columns:
  "foldl (\<lambda>st col. clean_string_column conv col st) (df, ws) cs =
     (df\<lparr>rows := map (apply_named (\<lambda>n x. foldl (\<lambda>x c. if n = c then clean_string conv x else x) x cs)
                       (columns df)) (rows df)\<rparr>, ws)"
proof (induction cs arbitrary: df)
  case Nil
  show ?case by (simp add: apply_named_id_fun)
next
  case (Cons c cs)
  have step: "clean_string_column conv c (df, ws) =
      (df\<lparr>rows := map (apply_named (\<lambda>n x. if n = c then clean_string conv x else x) (columns df)) (rows df)\<rparr>, ws)"
    using clean_string_column_frame[of conv c "(df, ws)"] clean_string_column_warnings[of conv c "(df, ws)"]
    by (simp add: prod_eq_iff)
  show ?case
    unfolding foldl_Cons step Cons.IH
    by (simp add: apply_named_comp comp_def)
qed

lemma foldl_numeric_columns:
  "foldl (\<lambda>d col. clean_numeric_column conv col d) df cs =
     df\<lparr>rows := map (apply_named (\<lambda>n x. foldl (\<lambda>x c. if n = c then to_numeric conv x else x) x cs)
                       (columns df)) (rows df)\<rparr>"
proof (induction cs arbitrary: df)
  case Nil
  show ?case by (simp add: apply_named_id_fun)
next
  case (Cons c cs)
  show ?case
    unfolding foldl_Cons Cons.IH
    by (simp add: clean_numeric_column_frame apply_named_comp comp_def)
qed

lemma distinct_string_columns: "distinct string_columns"
  by (simp add: string_columns_def)

lemma distinct_numeric_columns: "distinct numeric_columns"
  by (simp add: numeric_columns_def)

lemma clean_dataframe_cells:
  "clean_dataframe conv df =
     (df\<lparr>rows := map (apply_named (cleaned_cell conv) (columns df)) (rows df)\<rparr>, [])"
proof -
  have t: "(if ''time'' \<in> set (columns df) then map_column ''time'' (astype_str conv) df else df)
      = df\<lparr>rows := map (apply_named (\<lambda>n x. if n = ''time'' then astype_str conv x else x) (columns df)) (rows df)\<rparr>"
    by (simp add: map_column_apply apply_named_notin_id)
  have c: "(\<lambda>n x. foldl (\<lambda>x c. if n = c then to_numeric conv x else x)
               (foldl (\<lambda>x c. if n = c then clean_string conv x else x)
                  (if n = ''time'' then astype_str conv x else x) string_columns) numeric_columns)
           = cleaned_cell conv"
    by (intro ext) (simp add: foldl_once distinct_string_columns distinct_numeric_columns
        cleaned_cell_def Let_def)
  show ?thesis
    unfolding clean_dataframe_def Let_def t foldl_string_columns
    by (simp add: foldl_numeric_columns apply_named_comp comp_def c)
qed



lemma time_not_string: "''time'' \<notin> set string_columns"
  by (simp add: string_columns_def)

lemma string_not_numeric: "n \<in> set string_columns \<Longrightarrow> n \<notin> set numeric_columns"
  by (auto simp: string_columns_def numeric_columns_def)

lemma to_numeric_idem: "to_numeric conv (to_numeric conv x) = to_numeric conv x"
  by (cases x) (auto simp: to_numeric_def split: option.splits missing.splits)

lemma numeric_not_time: "n \<in> set numeric_columns \<Longrightarrow> n \<noteq> ''time''"
  by (auto simp: numeric_columns_def)

lemma cleaned_cell_cases:
  "cleaned_cell conv n x =
     (if n \<in> set numeric_columns then to_numeric conv x
      else if n \<in> set string_columns then clean_string conv x
      else if n = ''time'' then astype_str conv x else x)"
  using string_not_numeric[of n] numeric_not_time[of n] time_not_string
  by (auto simp: cleaned_cell_def Let_def)

lemma cleaned_cell_idem: "cleaned_cell conv n (cleaned_cell conv n x) = cleaned_cell conv n x"
  by (simp add: cleaned_cell_cases to_numeric_idem clean_string_def astype_str_def str_of_def
      strip_chars_idem)

text \<open>
  C7. The sanitizer is idempotent: sanitizing a sanitized frame gives the same frame, and
  again no warning. A text of the time column or of a designated string column is already
  its own \<^verbatim>\<open>str()\<close> and holds no character to strip, and a designated numeric column
  holds numbers and missing values only.
\<close>

theorem clean_dataframe_idempotent:
  "clean_dataframe conv (fst (clean_dataframe conv df)) = clean_dataframe conv df"
  by (simp add: clean_dataframe_cells apply_named_comp comp_def cleaned_cell_idem)


text \<open>
  C10. Handling one designated string column adds no warning, so the sanitizer returns no
  warning for any frame; and in the sanitized frame every cell of a designated string
  column is a text with none of the characters comma, square bracket, curly brace, double
  quote and backslash, in which neither post-strip check finds a match.
\<close>

theorem sanitizer_warnings_unreachable:
  "snd (clean_string_column conv col st) = snd st
   \<and> snd (clean_dataframe conv df) = []
   \<and> (\<forall>r \<in> set (rows (fst (clean_dataframe conv df))). \<forall>i < length r.
         i < length (columns df) \<and> columns df ! i \<in> set string_columns \<longrightarrow>
           (\<exists>s. r ! i = Str s \<and> set s \<inter> set stripped_chars = {}
                \<and> \<not> contains_comma (r ! i) \<and> \<not> contains_json (r ! i)))"
proof (intro conjI ballI allI impI)
  show "snd (clean_string_column conv col st) = snd st"
    by (rule clean_string_column_warnings)
  show "snd (clean_dataframe conv df) = []"
    by (simp add: clean_dataframe_cells)
next
  fix r i
  assume r: "r \<in> set (rows (fst (clean_dataframe conv df)))" and i: "i < length r"
    and c: "i < length (columns df) \<and> columns df ! i \<in> set string_columns"
  from r obtain r0 where r0: "r = apply_named (cleaned_cell conv) (columns df) r0"
    by (auto simp: clean_dataframe_cells)
  with i have "r ! i = cleaned_cell conv (columns df ! i) (r0 ! i)"
    using c by (simp add: nth_apply_named)
  also have "\<dots> = clean_string conv (r0 ! i)"
    using c string_not_numeric by (simp add: cleaned_cell_cases)
  finally have eq: "r ! i = clean_string conv (r0 ! i)" .
  show "\<exists>s. r ! i = Str s \<and> set s \<inter> set stripped_chars = {}
          \<and> \<not> contains_comma (r ! i) \<and> \<not> contains_json (r ! i)"
    unfolding eq using clean_string_no_comma[of conv "r0 ! i"] clean_string_no_json[of conv "r0 ! i"]
      strip_chars_free[of "str_of conv (r0 ! i)"]
    by (simp add: clean_string_def)
qed

theorem sanitizer_warnings_unreachable_witness:
  "[Str ''2025-07-14 01:00:00'', Str ''buybuild'', Str ''fixed'', Num 80]
      \<in> set (rows (fst (clean_dataframe example_conv messy_frame)))
   \<and> (1::nat) < length [Str ''2025-07-14 01:00:00'', Str ''buybuild'', Str ''fixed'', Num (80::int)]
   \<and> 1 < length (columns messy_frame) \<and> columns messy_frame ! 1 \<in> set string_columns
   \<and> set ''buybuild'' \<inter> set stripped_chars = {}
   \<and> snd (clean_dataframe example_conv messy_frame) = []"
proof -
  have m: "[Str ''2025-07-14 01:00:00'', Str ''buybuild'', Str ''fixed'', Num 80]
      \<in> set (rows (fst (clean_dataframe example_conv messy_frame)))"
    by code_simp
  have c: "1 < length (columns messy_frame) \<and> columns messy_frame ! 1 \<in> set string_columns"
    by code_simp
  from sanitizer_warnings_unreachable[of example_conv _ _ messy_frame] m c
  show ?thesis by fastforce
qed

subsection \<open>Ranking engine and tier join\<close>

lemma filter_eq_distinct:
  "distinct xs \<Longrightarrow> filter (\<lambda>e. e = k) xs = (if k \<in> set xs then [k] else [])"
  by (induction xs) auto

lemma key_eq_notna: "\<not> isna b \<Longrightarrow> key_eq a b \<longleftrightarrow> a = b"
  by (auto simp: key_eq_def)

lemma grouped_rows_notna:
  "r \<in> set (grouped_rows iT iL it cur one two rs) \<Longrightarrow>
     \<not> isna (cell_at r iT) \<and> \<not> isna (cell_at r iL) \<and> in_window cur one two (cell_at r it)
     \<and> r \<in> set rs"
  by (auto simp: grouped_rows_def)

lemma count_df_keys:
  "fst ` set (count_df iT iL it iS cur one two rs)
     = group_key iT iL it ` set (grouped_rows iT iL it cur one two rs)"
  by (auto simp: count_df_def Let_def image_iff)

lemma rank_in_tier_keys: "map fst (rank_in_tier cdf) = map fst cdf"
  by (simp add: rank_in_tier_def comp_def)

lemma pivot_index_notna:
  assumes "e \<in> set (pivot_index (rank_in_tier (count_df iT iL it iS cur one two rs)))"
  shows "\<not> isna (fst e) \<and> \<not> isna (snd e)"
proof -
  let ?ranked = "rank_in_tier (count_df iT iL it iS cur one two rs)"
  from assms obtain row where row: "row \<in> set ?ranked" and e: "e = (fst (fst row), fst (snd (fst row)))"
    by (auto simp: pivot_index_def)
  have "fst row \<in> set (map fst ?ranked)" using row by simp
  then have "fst row \<in> fst ` set (count_df iT iL it iS cur one two rs)"
    by (simp add: rank_in_tier_keys)
  then obtain r where "r \<in> set (grouped_rows iT iL it cur one two rs)"
    and "fst row = group_key iT iL it r"
    by (auto simp: count_df_keys)
  with grouped_rows_notna[of r] e show ?thesis
    by (simp add: group_key_def)
qed

lemma pivot_matches:
  assumes na: "\<And>e. e \<in> set idx \<Longrightarrow> \<not> isna (fst e) \<and> \<not> isna (snd e)"
    and d: "distinct idx"
  shows "filter (keys_match [iT, iL] [0, Suc 0] l) (map (\<lambda>e. [fst e, snd e, f e, g e]) idx)
           = (if (cell_at l iT, cell_at l iL) \<in> set idx
              then [[cell_at l iT, cell_at l iL, f (cell_at l iT, cell_at l iL), g (cell_at l iT, cell_at l iL)]]
              else [])"
proof -
  have "filter (keys_match [iT, iL] [0, Suc 0] l) (map (\<lambda>e. [fst e, snd e, f e, g e]) idx)
        = map (\<lambda>e. [fst e, snd e, f e, g e]) (filter (\<lambda>e. e = (cell_at l iT, cell_at l iL)) idx)"
    unfolding filter_map comp_def
  proof (rule arg_cong[where f="map _"], rule filter_cong[OF refl])
    fix e assume "e \<in> set idx"
    from na[OF this] show "keys_match [iT, iL] [0, Suc 0] l [fst e, snd e, f e, g e] = (e = (cell_at l iT, cell_at l iL))"
      by (auto simp: keys_match_def key_eq_notna cell_at_def prod_eq_iff)
  qed
  then show ?thesis using d by (simp add: filter_eq_distinct)
qed

lemma pivot_columns_index:
  "col_index ([''Tier'', ''exportedLender''] @ rank_columns) ''Tier'' = Some 0"
  "col_index ([''Tier'', ''exportedLender''] @ rank_columns) ''exportedLender'' = Some 1"
  by (simp_all add: rank_columns_def)

lemma prepare_rank_data_result:
  assumes ok: "prepare_rank_data df cts ots tts = Inr out"
  shows "\<exists>it iT iL iS.
      col_index (columns df) ''time'' = Some it \<and> col_index (columns df) ''Tier'' = Some iT
    \<and> col_index (columns df) ''exportedLender'' = Some iL
    \<and> col_index (columns df) ''scenarioId'' = Some iS
    \<and> to_period ots \<noteq> to_period tts
    \<and> Some (to_period ots) \<in> set (pivot_months (rank_in_tier
          (count_df iT iL it iS (to_period cts) (to_period ots) (to_period tts) (rows df))))
    \<and> Some (to_period tts) \<in> set (pivot_months (rank_in_tier
          (count_df iT iL it iS (to_period cts) (to_period ots) (to_period tts) (rows df))))
    \<and> columns out = columns df @ rank_columns
    \<and> rows out = map (\<lambda>r. r @ rank_cells (rank_in_tier
          (count_df iT iL it iS (to_period cts) (to_period ots) (to_period tts) (rows df)))
            (to_period ots) (to_period tts) (cell_at r iT, cell_at r iL)) (rows df)"
proof -
  from ok obtain it iT iL iS where
    idx: "col_index (columns df) ''time'' = Some it" "col_index (columns df) ''Tier'' = Some iT"
      "col_index (columns df) ''exportedLender'' = Some iL"
      "col_index (columns df) ''scenarioId'' = Some iS"
    by (auto simp: prepare_rank_data_def split: option.splits if_splits)
  define ranked where "ranked = rank_in_tier
          (count_df iT iL it iS (to_period cts) (to_period ots) (to_period tts) (rows df))"
  from ok idx have sel: "pivot_selected ranked (to_period ots) (to_period tts) \<noteq> Inl KeyError"
    by (auto simp: prepare_rank_data_def Let_def ranked_def pivot_selected_def split: if_splits sum.splits)
  then have months: "to_period ots \<noteq> to_period tts"
      "Some (to_period ots) \<in> set (pivot_months ranked)"
      "Some (to_period tts) \<in> set (pivot_months ranked)"
    by (auto simp: pivot_selected_def split: if_splits)
  define pivot_df :: "'a dataframe" where "pivot_df =
      \<lparr>columns = [''Tier'', ''exportedLender''] @ rank_columns,
       rows = map (\<lambda>e. [fst e, snd e, Num (of_nat (pivot_rank ranked e (to_period ots))),
                          Num (of_nat (pivot_rank ranked e (to_period tts)))]) (pivot_index ranked)\<rparr>"
  have ps: "pivot_selected ranked (to_period ots) (to_period tts) = Inr pivot_df"
    using months by (simp add: pivot_selected_def pivot_df_def)
  from ok idx have m: "merge_left df pivot_df [''Tier'', ''exportedLender''] [''Tier'', ''exportedLender''] = Inr out"
    by (auto simp: prepare_rank_data_def Let_def ranked_def[symmetric] ps split: if_splits)
  have keep: "filter (\<lambda>j. j \<notin> set [0, Suc 0]) [0..<length (columns pivot_df)] = [2, 3]"
    by (simp add: pivot_df_def rank_columns_def upt_rec)
  have d: "distinct (pivot_index ranked)" by (simp add: pivot_index_def)
  have na: "\<And>e. e \<in> set (pivot_index ranked) \<Longrightarrow> \<not> isna (fst e) \<and> \<not> isna (snd e)"
    unfolding ranked_def by (rule pivot_index_notna)
  have out: "out = \<lparr>columns = columns df @ rank_columns,
      rows = concat (map (\<lambda>l. case filter (keys_match [iT, iL] [0, Suc 0] l) (rows pivot_df) of
                       [] \<Rightarrow> [l @ replicate (length [Suc (Suc 0), Suc (Suc (Suc 0))]) (Missing NaN)]
                     | ms \<Rightarrow> map (\<lambda>m. l @ map (cell_at m) [Suc (Suc 0), Suc (Suc (Suc 0))]) ms) (rows df))\<rparr>"
    using m idx
    by (auto simp: merge_left_def Let_def pivot_df_def rank_columns_def upt_rec
        numeral_2_eq_2 numeral_3_eq_3)
  have row: "(case filter (keys_match [iT, iL] [0, Suc 0] l) (rows pivot_df) of
                       [] \<Rightarrow> [l @ replicate (length [Suc (Suc 0), Suc (Suc (Suc 0))]) (Missing NaN)]
                     | ms \<Rightarrow> map (\<lambda>m. l @ map (cell_at m) [Suc (Suc 0), Suc (Suc (Suc 0))]) ms)
             = [l @ rank_cells ranked (to_period ots) (to_period tts) (cell_at l iT, cell_at l iL)]" for l
  proof -
    have "filter (keys_match [iT, iL] [0, Suc 0] l) (rows pivot_df)
          = (if (cell_at l iT, cell_at l iL) \<in> set (pivot_index ranked)
             then [[cell_at l iT, cell_at l iL,
                    Num (of_nat (pivot_rank ranked (cell_at l iT, cell_at l iL) (to_period ots))),
                    Num (of_nat (pivot_rank ranked (cell_at l iT, cell_at l iL) (to_period tts)))]]
             else [])"
      unfolding pivot_df_def by (simp add: pivot_matches[OF na d])
    then show ?thesis
      by (simp add: rank_cells_def) (simp add: cell_at_def)
  qed
  have "rows out = map (\<lambda>r. r @ rank_cells ranked (to_period ots) (to_period tts) (cell_at r iT, cell_at r iL)) (rows df)"
    unfolding out by (simp add: row concat_map_singleton)
  with idx months out show ?thesis
    unfolding ranked_def by auto
qed



lemma ranked_keys:
  "fst ` set (rank_in_tier (count_df iT iL it iS cur one two rs))
     = group_key iT iL it ` set (grouped_rows iT iL it cur one two rs)"
proof -
  have "fst ` set (rank_in_tier (count_df iT iL it iS cur one two rs))
      = set (map fst (rank_in_tier (count_df iT iL it iS cur one two rs)))" by simp
  also have "\<dots> = fst ` set (count_df iT iL it iS cur one two rs)"
    by (simp add: rank_in_tier_keys)
  finally show ?thesis by (simp add: count_df_keys)
qed

lemma pivot_index_iff:
  "(t, l) \<in> set (pivot_index (rank_in_tier (count_df iT iL it iS cur one two rs)))
     \<longleftrightarrow> qualifying_records iT iL it cur one two rs t l \<noteq> []"
proof -
  have "set (pivot_index (rank_in_tier (count_df iT iL it iS cur one two rs)))
      = (\<lambda>k. (fst k, fst (snd k))) ` fst ` set (rank_in_tier (count_df iT iL it iS cur one two rs))"
    by (simp add: pivot_index_def image_image)
  also have "\<dots> = (\<lambda>r. (cell_at r iT, cell_at r iL)) ` set (grouped_rows iT iL it cur one two rs)"
    by (simp add: ranked_keys image_image group_key_def)
  finally show ?thesis
    by (auto simp: qualifying_records_def filter_empty_conv)
qed

lemma pivot_rank_zero:
  assumes "qualifying_in_month iT iL it cur one two rs t l m = []"
  shows "pivot_rank (rank_in_tier (count_df iT iL it iS cur one two rs)) (t, l) m = 0"
proof -
  have "(t, l, Some m) \<notin> group_key iT iL it ` set (grouped_rows iT iL it cur one two rs)"
    using assms
    by (auto simp: qualifying_in_month_def qualifying_records_def filter_empty_conv group_key_def)
  then have "(t, l, Some m) \<notin> fst ` set (rank_in_tier (count_df iT iL it iS cur one two rs))"
    by (simp add: ranked_keys)
  then have "find (\<lambda>row. fst row = (t, l, Some m)) (rank_in_tier (count_df iT iL it iS cur one two rs)) = None"
    by (auto simp: find_None_iff image_iff)
  then show ?thesis by (simp add: pivot_rank_def)
qed

lemma find_distinct_key:
  "distinct (map fst xs) \<Longrightarrow> (k, v) \<in> set xs \<Longrightarrow> find (\<lambda>row. fst row = k) xs = Some (k, v)"
proof (induction xs)
  case Nil
  then show ?case by simp
next
  case (Cons x xs)
  then show ?case by (cases x) (auto simp: image_iff)
qed

text \<open>
  The rank cell of an entity with an aggregate row in the month is the rank of that row,
  and at least 1.
\<close>

lemma pivot_rank_rank:
  assumes "((t, l, Some m), c, r) \<in> set (rank_in_tier (count_df iT iL it iS cur one two rs))"
  shows "pivot_rank (rank_in_tier (count_df iT iL it iS cur one two rs)) (t, l) m = r \<and> 1 \<le> r"
proof -
  let ?ranked = "rank_in_tier (count_df iT iL it iS cur one two rs)"
  have "distinct (map fst ?ranked)"
    by (simp add: rank_in_tier_keys distinct_count_df)
  from find_distinct_key[OF this assms]
  have "pivot_rank ?ranked (t, l) m = r" by (simp add: pivot_rank_def)
  moreover have "1 \<le> r"
    using assms by (auto simp: rank_in_tier_iff rank_min_desc_def)
  ultimately show ?thesis by simp
qed

text \<open>
  C3, as the code has it. Whenever the ranking engine returns a frame, the record at
  position \<open>j\<close> is followed by its two rank cells, and for each lagging month in which
  the record's entity (with its tier) has no qualifying record: the rank cell of that month
  is missing if the entity has no qualifying record in any of the three target months, and
  is the number 0, the fill value of the pivot, if it has one in another target month.
\<close>

theorem lagging_rank_missing_or_zero:
  assumes ok: "prepare_rank_data df cts ots tts = Inr out"
    and idx: "col_index (columns df) ''time'' = Some it" "col_index (columns df) ''Tier'' = Some iT"
      "col_index (columns df) ''exportedLender'' = Some iL"
    and j: "j < length (rows df)"
    and cur: "cur = to_period cts" and one: "one = to_period ots" and two: "two = to_period tts"
    and t: "t = cell_at (rows df ! j) iT" and l: "l = cell_at (rows df ! j) iL"
  shows "\<exists>c1 c2. rows out ! j = rows df ! j @ [c1, c2]
     \<and> (qualifying_in_month iT iL it cur one two (rows df) t l one = [] \<longrightarrow>
          c1 = (if qualifying_records iT iL it cur one two (rows df) t l = [] then Missing NaN else Num 0))
     \<and> (qualifying_in_month iT iL it cur one two (rows df) t l two = [] \<longrightarrow>
          c2 = (if qualifying_records iT iL it cur one two (rows df) t l = [] then Missing NaN else Num 0))"
proof -
  from prepare_rank_data_result[OF ok] idx obtain iS where
    rows: "rows out = map (\<lambda>r. r @ rank_cells (rank_in_tier (count_df iT iL it iS cur one two (rows df)))
              one two (cell_at r iT, cell_at r iL)) (rows df)"
    unfolding cur one two by auto
  let ?ranked = "rank_in_tier (count_df iT iL it iS cur one two (rows df))"
  have row: "rows out ! j = rows df ! j @ rank_cells ?ranked one two (t, l)"
    using j by (simp add: rows t l)
  show ?thesis
  proof (cases "qualifying_records iT iL it cur one two (rows df) t l = []")
    case True
    then have "(t, l) \<notin> set (pivot_index ?ranked)" by (simp add: pivot_index_iff)
    then show ?thesis using True row by (simp add: rank_cells_def)
  next
    case False
    then have "(t, l) \<in> set (pivot_index ?ranked)" by (simp add: pivot_index_iff)
    then have "rows out ! j = rows df ! j @ [Num (of_nat (pivot_rank ?ranked (t, l) one)),
        Num (of_nat (pivot_rank ?ranked (t, l) two))]"
      using row by (simp add: rank_cells_def)
    then show ?thesis using False by (auto simp: pivot_rank_zero)
  qed
qed



lemma pivot_months_iff:
  "Some m \<in> set (pivot_months (rank_in_tier (count_df iT iL it iS cur one two rs)))
     \<longleftrightarrow> (\<exists>r \<in> set (grouped_rows iT iL it cur one two rs). month_of (cell_at r it) = Some m)"
proof -
  have "set (pivot_months (rank_in_tier (count_df iT iL it iS cur one two rs)))
      = (\<lambda>k. snd (snd k)) ` fst ` set (rank_in_tier (count_df iT iL it iS cur one two rs))"
    by (simp add: pivot_months_def image_image)
  also have "\<dots> = (\<lambda>r. month_of (cell_at r it)) ` set (grouped_rows iT iL it cur one two rs)"
    by (simp add: ranked_keys image_image group_key_def)
  finally show ?thesis by force
qed

lemma merge_left_on_returns:
  assumes "those (map (col_index (columns left)) ks) = Some li"
    and "those (map (col_index (columns right)) ks) = Some ri"
  shows "\<exists>out. merge_left left right ks ks = Inr out"
  using assms by (simp add: merge_left_def Let_def)

lemma prepare_rank_data_returns_iff:
  "(\<exists>out. prepare_rank_data df cts ots tts = Inr out) \<longleftrightarrow>
     (\<exists>it iT iL iS.
        col_index (columns df) ''time'' = Some it \<and> col_index (columns df) ''Tier'' = Some iT
      \<and> col_index (columns df) ''exportedLender'' = Some iL
      \<and> col_index (columns df) ''scenarioId'' = Some iS
      \<and> list_all (\<lambda>r. has_dt (cell_at r it)) (rows df)
      \<and> to_period ots \<noteq> to_period tts
      \<and> (\<exists>r \<in> set (grouped_rows iT iL it (to_period cts) (to_period ots) (to_period tts) (rows df)).
            month_of (cell_at r it) = Some (to_period ots))
      \<and> (\<exists>r \<in> set (grouped_rows iT iL it (to_period cts) (to_period ots) (to_period tts) (rows df)).
            month_of (cell_at r it) = Some (to_period tts)))"
  (is "?L \<longleftrightarrow> ?R")
proof
  assume ?L
  then obtain out where ok: "prepare_rank_data df cts ots tts = Inr out" ..
  from prepare_rank_data_result[OF ok] obtain it iT iL iS where
    idx: "col_index (columns df) ''time'' = Some it" "col_index (columns df) ''Tier'' = Some iT"
      "col_index (columns df) ''exportedLender'' = Some iL"
      "col_index (columns df) ''scenarioId'' = Some iS"
    and ne: "to_period ots \<noteq> to_period tts"
    and m1: "Some (to_period ots) \<in> set (pivot_months (rank_in_tier
          (count_df iT iL it iS (to_period cts) (to_period ots) (to_period tts) (rows df))))"
    and m2: "Some (to_period tts) \<in> set (pivot_months (rank_in_tier
          (count_df iT iL it iS (to_period cts) (to_period ots) (to_period tts) (rows df))))"
    by blast
  have dt: "list_all (\<lambda>r. has_dt (cell_at r it)) (rows df)"
    using ok idx by (auto simp: prepare_rank_data_def split: if_splits)
  from idx dt ne m1 m2 show ?R
    unfolding pivot_months_iff by blast
next
  assume ?R
  then obtain it iT iL iS where
    idx: "col_index (columns df) ''time'' = Some it" "col_index (columns df) ''Tier'' = Some iT"
      "col_index (columns df) ''exportedLender'' = Some iL"
      "col_index (columns df) ''scenarioId'' = Some iS"
    and dt: "list_all (\<lambda>r. has_dt (cell_at r it)) (rows df)"
    and ne: "to_period ots \<noteq> to_period tts"
    and m1: "\<exists>r \<in> set (grouped_rows iT iL it (to_period cts) (to_period ots) (to_period tts) (rows df)).
            month_of (cell_at r it) = Some (to_period ots)"
    and m2: "\<exists>r \<in> set (grouped_rows iT iL it (to_period cts) (to_period ots) (to_period tts) (rows df)).
            month_of (cell_at r it) = Some (to_period tts)"
    by blast
  let ?ranked = "rank_in_tier (count_df iT iL it iS (to_period cts) (to_period ots) (to_period tts) (rows df))"
  from m1 m2 have "Some (to_period ots) \<in> set (pivot_months ?ranked)"
    "Some (to_period tts) \<in> set (pivot_months ?ranked)"
    unfolding pivot_months_iff by blast+
  with ne obtain pivot_df where ps: "pivot_selected ?ranked (to_period ots) (to_period tts) = Inr pivot_df"
    and cols: "columns pivot_df = [''Tier'', ''exportedLender''] @ rank_columns"
    by (simp add: pivot_selected_def)
  have "\<exists>out. merge_left df pivot_df [''Tier'', ''exportedLender''] [''Tier'', ''exportedLender''] = Inr out"
    by (rule merge_left_on_returns[where li="[iT, iL]" and ri="[0, 1]"])
       (simp_all add: idx cols rank_columns_def)
  then show ?L
    using idx dt ps by (simp add: prepare_rank_data_def Let_def)
qed


lemma key_eq_trans: "key_eq a b \<Longrightarrow> key_eq a c \<Longrightarrow> key_eq b c"
  by (auto simp: key_eq_def)

lemma filter_at_most_one:
  assumes "\<forall>i j. i < j \<and> j < length xs \<longrightarrow> \<not> (P (xs ! i) \<and> P (xs ! j))"
  shows "length (filter P xs) \<le> 1"
  using assms
proof (induction xs)
  case Nil
  then show ?case by simp
next
  case (Cons x xs)
  have tail: "\<forall>i j. i < j \<and> j < length xs \<longrightarrow> \<not> (P (xs ! i) \<and> P (xs ! j))"
  proof (intro allI impI)
    fix i j assume "i < j \<and> j < length xs"
    then have "Suc i < Suc j \<and> Suc j < length (x # xs)" by simp
    with Cons.prems have "\<not> (P ((x # xs) ! Suc i) \<and> P ((x # xs) ! Suc j))" by blast
    then show "\<not> (P (xs ! i) \<and> P (xs ! j))" by simp
  qed
  show ?case
  proof (cases "P x")
    case False
    with Cons.IH[OF tail] show ?thesis by simp
  next
    case True
    have "\<not> P y" if "y \<in> set xs" for y
    proof -
      from that obtain j where j: "j < length xs" "xs ! j = y" by (auto simp: in_set_conv_nth)
      then have "0 < Suc j \<and> Suc j < length (x # xs)" by simp
      with Cons.prems have "\<not> (P ((x # xs) ! 0) \<and> P ((x # xs) ! Suc j))" by blast
      with True j show ?thesis by simp
    qed
    then have "filter P xs = []" by (simp add: filter_empty_conv)
    with True show ?thesis by simp
  qed
qed

text \<open>The tier cells that the join puts after a record.\<close>

lemma tier_join_rows:
  assumes ok: "tier_join result_df tier_df = Inr out"
    and iL: "col_index (columns result_df) ''exportedLender'' = Some iL"
    and iK: "col_index (columns tier_df) ''Lender'' = Some iK"
    and uniq: "\<forall>i j. i < j \<and> j < length (rows tier_df) \<longrightarrow>
        \<not> key_eq (cell_at (rows tier_df ! i) iK) (cell_at (rows tier_df ! j) iK)"
  shows "length (rows out) = length (rows result_df)"
    and "columns out = filter (\<lambda>n. n \<noteq> ''Lender'') (columns result_df @ columns tier_df)"
    and "rows out = map (\<lambda>l. drop_named ''Lender'' (columns result_df @ columns tier_df)
            (l @ (case filter (keys_match [iL] [iK] l) (rows tier_df) of
                    [] \<Rightarrow> replicate (length (columns tier_df)) (Missing NaN)
                  | m # ms \<Rightarrow> map (cell_at m) [0..<length (columns tier_df)]))) (rows result_df)"
proof -
  define merged where "merged = \<lparr>columns = columns result_df @ columns tier_df,
      rows = concat (map (\<lambda>l. case filter (keys_match [iL] [iK] l) (rows tier_df) of
                       [] \<Rightarrow> [l @ replicate (length [0..<length (columns tier_df)]) (Missing NaN)]
                     | ms \<Rightarrow> map (\<lambda>m. l @ map (cell_at m) [0..<length (columns tier_df)]) ms)
                   (rows result_df))\<rparr>"
  have m: "merge_left result_df tier_df [''exportedLender''] [''Lender''] = Inr merged"
    using iL iK by (simp add: merge_left_def merged_def map_nth Let_def)
  have one: "length (filter (keys_match [iL] [iK] l) (rows tier_df)) \<le> 1" for l
  proof (rule filter_at_most_one, intro allI impI)
    fix i j assume ij: "i < j \<and> j < length (rows tier_df)"
    show "\<not> (keys_match [iL] [iK] l (rows tier_df ! i) \<and> keys_match [iL] [iK] l (rows tier_df ! j))"
      using uniq ij key_eq_trans by (fastforce simp: keys_match_def)
  qed
  have row: "(case filter (keys_match [iL] [iK] l) (rows tier_df) of
                       [] \<Rightarrow> [l @ replicate (length [0..<length (columns tier_df)]) (Missing NaN)]
                     | ms \<Rightarrow> map (\<lambda>m. l @ map (cell_at m) [0..<length (columns tier_df)]) ms)
      = [l @ (case filter (keys_match [iL] [iK] l) (rows tier_df) of
                    [] \<Rightarrow> replicate (length (columns tier_df)) (Missing NaN)
                  | m # ms \<Rightarrow> map (cell_at m) [0..<length (columns tier_df)])]" for l
    using one[of l] by (cases "filter (keys_match [iL] [iK] l) (rows tier_df)") auto
  have mrows: "rows merged = map (\<lambda>l. l @ (case filter (keys_match [iL] [iK] l) (rows tier_df) of
                    [] \<Rightarrow> replicate (length (columns tier_df)) (Missing NaN)
                  | m # ms \<Rightarrow> map (cell_at m) [0..<length (columns tier_df)])) (rows result_df)"
    by (simp add: merged_def row concat_map_singleton)
  have lender: "''Lender'' \<in> set (columns merged)"
    using iK col_index_None[of "columns tier_df" "''Lender''"] by (simp add: merged_def)
  from ok m lender have out: "out = \<lparr>columns = filter (\<lambda>n. n \<noteq> ''Lender'') (columns merged),
               rows = map (drop_named ''Lender'' (columns merged)) (rows merged)\<rparr>"
    by (simp add: tier_join_def drop_column_def)
  show "length (rows out) = length (rows result_df)"
    by (simp add: out mrows)
  show "columns out = filter (\<lambda>n. n \<noteq> ''Lender'') (columns result_df @ columns tier_df)"
    by (simp add: out merged_def)
  show "rows out = map (\<lambda>l. drop_named ''Lender'' (columns result_df @ columns tier_df)
            (l @ (case filter (keys_match [iL] [iK] l) (rows tier_df) of
                    [] \<Rightarrow> replicate (length (columns tier_df)) (Missing NaN)
                  | m # ms \<Rightarrow> map (cell_at m) [0..<length (columns tier_df)]))) (rows result_df)"
    by (simp add: out mrows) (simp add: merged_def)
qed


text \<open>
  C3 as stated fails: in the joined example the entity A of tier 1 has no qualifying
  record in June 2025, the month two before, and its record carries the rank 0 for that
  month, not a missing value.
\<close>

theorem lagging_rank_zero_counterexample:
  "qualifying_in_month 4 0 1 (2025, 8) (2025, 7) (2025, 6) (rows joined_frame) (Str ''1'') (Str ''A'') (2025, 6) = []
   \<and> prepare_rank_data joined_frame aug_2025 jul_2025 jun_2025 = Inr ranked_frame
   \<and> rows joined_frame ! 0 = [Str ''A'', Ts \<lparr>ts_year = 2025, ts_month = 7, ts_day = 10, ts_secs = 0\<rparr>, Str ''s1'', Str ''good'', Str ''1'']
   \<and> rows ranked_frame ! 0 = rows joined_frame ! 0 @ [Num 1, Num 0]"
  by code_simp

theorem lagging_rank_missing_or_zero_witness:
  "prepare_rank_data joined_frame aug_2025 jul_2025 jun_2025 = Inr ranked_frame
   \<and> col_index (columns joined_frame) ''time'' = Some 1
   \<and> col_index (columns joined_frame) ''Tier'' = Some 4
   \<and> col_index (columns joined_frame) ''exportedLender'' = Some 0
   \<and> (2::nat) < length (rows joined_frame)
   \<and> qualifying_in_month 4 0 1 (to_period aug_2025) (to_period jul_2025) (to_period jun_2025)
        (rows joined_frame) (Missing NaN) (Str ''X'') (to_period jun_2025) = []
   \<and> qualifying_records 4 0 1 (to_period aug_2025) (to_period jul_2025) (to_period jun_2025)
        (rows joined_frame) (Missing NaN) (Str ''X'') = []
   \<and> rows ranked_frame ! 2 = rows joined_frame ! 2 @ [Missing NaN, Missing NaN]"
proof -
  have ok: "prepare_rank_data joined_frame aug_2025 jul_2025 jun_2025 = Inr ranked_frame"
    by code_simp
  have i1: "col_index (columns joined_frame) ''time'' = Some 1" by code_simp
  have i2: "col_index (columns joined_frame) ''Tier'' = Some 4" by code_simp
  have i3: "col_index (columns joined_frame) ''exportedLender'' = Some 0" by code_simp
  have j: "(2::nat) < length (rows joined_frame)" by code_simp
  have t: "Missing NaN = cell_at (rows joined_frame ! 2) 4" by code_simp
  have l: "Str ''X'' = cell_at (rows joined_frame ! 2) 0" by code_simp
  have q1: "qualifying_in_month 4 0 1 (to_period aug_2025) (to_period jul_2025) (to_period jun_2025)
        (rows joined_frame) (Missing NaN) (Str ''X'') (to_period jul_2025) = []" by code_simp
  have q2: "qualifying_in_month 4 0 1 (to_period aug_2025) (to_period jul_2025) (to_period jun_2025)
        (rows joined_frame) (Missing NaN) (Str ''X'') (to_period jun_2025) = []" by code_simp
  have q: "qualifying_records 4 0 1 (to_period aug_2025) (to_period jul_2025) (to_period jun_2025)
        (rows joined_frame) (Missing NaN) (Str ''X'') = []" by code_simp
  from lagging_rank_missing_or_zero[OF ok i1 i2 i3 j refl refl refl t l] q1 q2 q
  have "rows ranked_frame ! 2 = rows joined_frame ! 2 @ [Missing NaN, Missing NaN]" by auto
  with ok i1 i2 i3 j q2 q show ?thesis by blast
qed

text \<open>
  C2 at two inputs: a frame with records in July only, and a frame whose only record has
  no time. No record falls in June (in the second, none in July either), the pivot has no
  rank column for that month, and the ranking engine raises \<^verbatim>\<open>KeyError\<close> instead of
  returning the records. (\<open>prepare_rank_data_result\<close> is the other half: whenever a frame
  is returned, it is the input with two cells after every record, in the input's order,
  and \<open>prepare_rank_data_returns_iff\<close> says when that is.)
\<close>

theorem ranking_fails_without_lagging_month:
  "prepare_rank_data july_frame aug_2025 jul_2025 jun_2025 = Inl KeyError
   \<and> prepare_rank_data undated_frame aug_2025 jul_2025 jun_2025 = Inl KeyError"
  by code_simp

text \<open>
  C5 at the run for a lender whose query result holds one record, of an entity that is
  not in the tier table: the join keeps the record, with a missing tier, but the aggregate
  is then empty, the ranking engine raises \<^verbatim>\<open>KeyError\<close>, and the run writes no file for
  the lender. (\<open>tier_join_rows\<close> is the other half: with unique keys the join returns one
  record per input record, in order.)
\<close>

theorem untiered_entity_export_lost:
  "tier_join untiered_frame tier_frame =
     Inr \<lparr>columns = [''exportedLender'', ''time'', ''scenarioId'', ''performance'', ''Tier''],
          rows = [[Str ''X'', Ts \<lparr>ts_year = 2025, ts_month = 7, ts_day = 11, ts_secs = 0\<rparr>,
                   Str ''s3'', Str ''ok'', Missing NaN]]\<rparr>
   \<and> main example_conv untiered_env = Inr \<lparr>files = [], log = [(''X'', Failed KeyError)]\<rparr>"
  by code_simp

subsection \<open>Pipeline driver\<close>

lemma process_lender_no_tier:
  "read_tier_csv env = Inl e \<Longrightarrow>
     process_lender conv env lender = Inl (case run_query env lender of Inl e' \<Rightarrow> e' | Inr d \<Rightarrow> e)"
  by (simp add: process_lender_def split: sum.splits)

lemma tier_join_no_lender_column:
  "''Lender'' \<notin> set (columns tier_df) \<Longrightarrow> tier_join result_df tier_df = Inl KeyError"
  by (simp add: tier_join_def merge_left_def col_index_None[symmetric] split: option.splits)

lemma process_lender_no_lender_column:
  "read_tier_csv env = Inr tier_df \<Longrightarrow> ''Lender'' \<notin> set (columns tier_df) \<Longrightarrow>
     process_lender conv env lender = Inl (case run_query env lender of Inl e' \<Rightarrow> e' | Inr d \<Rightarrow> KeyError)"
  by (simp add: process_lender_def tier_join_no_lender_column split: sum.splits)

lemma process_lenders_all_failed:
  assumes "\<And>lender. process_lender conv env lender = Inl (f lender)"
    and "\<forall>lender \<in> set lenders. format_query env lender = None"
  shows "process_lenders conv env lenders res
           = Inr (res\<lparr>log := log res @ map (\<lambda>lender. (lender, Failed (f lender))) lenders\<rparr>)"
  using assms(2) by (induction lenders arbitrary: res) (simp_all add: assms(1))

lemma process_lenders_log_length:
  "process_lenders conv env lenders res = Inr res' \<Longrightarrow>
     length (log res') = length (log res) + length lenders"
  by (induction lenders arbitrary: res) (auto split: sum.splits option.splits)

text \<open>
  C6, as the code has it. The tier table is read inside the handler of each lender. If
  the file cannot be read or parsed, or has no \<^verbatim>\<open>Lender\<close> column, then no export is
  written, but the run does not abort: every lender is tried in turn, its failure (of its
  query, or else of the tier lookup) is caught and logged, and the run ends normally
  (the query template being one that can be filled in).
\<close>

theorem tier_source_failure_isolated:
  assumes "validate_paths env = None" and "connect env = None"
    and "get_lenders env = Inr lenders"
    and "\<forall>lender \<in> set lenders. format_query env lender = None"
    and "read_tier_csv env = Inl e
         \<or> (\<exists>tier_df. read_tier_csv env = Inr tier_df \<and> ''Lender'' \<notin> set (columns tier_df))"
  shows "\<exists>e'. main conv env =
      Inr \<lparr>files = [],
           log = map (\<lambda>lender. (lender, Failed (case run_query env lender of Inl q \<Rightarrow> q | Inr d \<Rightarrow> e'))) lenders\<rparr>"
proof -
  from assms(5) obtain e' where
    "\<And>lender. process_lender conv env lender = Inl (case run_query env lender of Inl q \<Rightarrow> q | Inr d \<Rightarrow> e')"
    using process_lender_no_tier process_lender_no_lender_column by metis
  from process_lenders_all_failed[of conv env, OF this assms(4)] assms(1-3)
  show ?thesis by (auto simp: main_def)
qed

text \<open>
  C6 as stated fails: with the tier table file missing and the lenders A and B, the run
  ends normally and has gone on to B after A failed.
\<close>

theorem tier_source_failure_counterexample:
  "read_tier_csv no_tier_env = Inl FileNotFoundError
   \<and> main example_conv no_tier_env
       = Inr \<lparr>files = [], log = [(''A'', Failed FileNotFoundError), (''B'', Failed FileNotFoundError)]\<rparr>"
  by code_simp

theorem tier_source_failure_isolated_witness:
  "validate_paths no_tier_env = None \<and> connect no_tier_env = None
   \<and> get_lenders no_tier_env = Inr [''A'', ''B'']
   \<and> list_all (\<lambda>lender. format_query no_tier_env lender = None) [''A'', ''B'']
   \<and> read_tier_csv no_tier_env = Inl FileNotFoundError
   \<and> files (projr (main example_conv no_tier_env)) = []
   \<and> map fst (log (projr (main example_conv no_tier_env))) = [''A'', ''B'']"
proof -
  have a: "validate_paths no_tier_env = None" by code_simp
  have b: "connect no_tier_env = None" by code_simp
  have c: "get_lenders no_tier_env = Inr [''A'', ''B'']" by code_simp
  have d: "read_tier_csv no_tier_env = Inl FileNotFoundError" by code_simp
  have f: "list_all (\<lambda>lender. format_query no_tier_env lender = None) [''A'', ''B'']"
    by (simp add: no_tier_env_def)
  then have f': "\<forall>lender \<in> set [''A'', ''B'']. format_query no_tier_env lender = None"
    by (simp add: list_all_iff)
  from tier_source_failure_isolated[of no_tier_env "[''A'', ''B'']" FileNotFoundError example_conv, OF a b c f']
    d a b c f
  show ?thesis by auto
qed

subsection \<open>Missing values in the export\<close>

text \<open>A missing value that reaches the writer is written as an empty quoted field.\<close>

lemma missing_renders_empty: "quote_field (render_cell conv (Missing k)) = [dquote, dquote]"
  by (simp add: quote_field_def render_cell_def)


text \<open>
  C8 at the ranked example: the record of B has no \<^verbatim>\<open>performance\<close>, a designated string
  column. The sanitizer's \<^verbatim>\<open>astype(str)\<close> turns the missing value into the text
  \<^verbatim>\<open>nan\<close>, which the writer puts between quotes; the missing time of the last record is
  written as \<^verbatim>\<open>NaT\<close> in the same way.
\<close>

theorem missing_text_exported_as_nan:
  "cell_at (rows ranked_frame ! 1) 3 = Missing NaN
   \<and> columns ranked_frame ! 3 = ''performance''
   \<and> cell_at (rows (fst (clean_dataframe example_conv ranked_frame)) ! 1) 3 = Str ''nan''
   \<and> map (render_cell example_conv) (rows (fst (clean_dataframe example_conv ranked_frame)) ! 1)
        = [''B'', ''2025-06-05 00:00:00'', ''s2'', ''nan'', ''1'', ''0'', ''1'']
   \<and> quote_field ''nan'' = [dquote, CHR ''n'', CHR ''a'', CHR ''n'', dquote]
   \<and> cell_at (rows ranked_frame ! 3) 1 = Missing NaT
   \<and> cell_at (rows (fst (clean_dataframe example_conv ranked_frame)) ! 3) 1 = Str ''NaT''"
  by code_simp

subsection \<open>Exporter round trip\<close>

lemma chars_distinct:
  "CR \<noteq> LF" "LF \<noteq> CR" "dquote \<noteq> CR" "dquote \<noteq> LF" "tab \<noteq> CR" "tab \<noteq> LF" "tab \<noteq> dquote"
  "dquote \<noteq> tab" "backslash \<noteq> CR" "backslash \<noteq> LF" "backslash \<noteq> dquote" "backslash \<noteq> tab"
  "LF \<noteq> dquote" "LF \<noteq> tab" "CR \<noteq> dquote" "CR \<noteq> backslash" "LF \<noteq> backslash"
  "CR \<noteq> tab" "dquote \<noteq> backslash" "tab \<noteq> backslash"
  by (simp_all add: CR_def LF_def dquote_def tab_def backslash_def)

lemma decode_sig_bom: "decode_sig (bom @ t) = t"
  by (simp add: decode_sig_def bom_def)

lemma translate_not_CR: "c \<noteq> CR \<Longrightarrow> translate_newlines (c # xs) = c # translate_newlines xs"
  by (cases xs) auto

lemma translate_append_no_LF:
  "(ys \<noteq> [] \<Longrightarrow> hd ys \<noteq> LF) \<Longrightarrow>
     translate_newlines (xs @ ys) = translate_newlines xs @ translate_newlines ys"
proof (induction xs rule: translate_newlines.induct)
  case (1 c d cs)
  then show ?case by auto
next
  case (2 c)
  then show ?case by (cases ys) (auto simp: translate_not_CR)
next
  case 3
  then show ?case by simp
qed

lemma translate_append_no_CR:
  "(xs \<noteq> [] \<Longrightarrow> last xs \<noteq> CR) \<Longrightarrow>
     translate_newlines (xs @ ys) = translate_newlines xs @ translate_newlines ys"
proof (induction xs rule: translate_newlines.induct)
  case (1 c d cs)
  then show ?case by (auto split: if_splits)
next
  case (2 c)
  then show ?case by (simp add: translate_not_CR)
next
  case 3
  then show ?case by simp
qed

lemma translate_no_CR: "CR \<notin> set (translate_newlines s)"
  by (induction s rule: translate_newlines.induct) (auto simp: chars_distinct)

lemma translate_id: "CR \<notin> set s \<Longrightarrow> translate_newlines s = s"
  by (induction s rule: translate_newlines.induct) auto


lemma escape_char_simps:
  "escape_char dquote = [dquote, dquote]"
  "escape_char backslash = [backslash, backslash]"
  "c \<noteq> dquote \<Longrightarrow> c \<noteq> backslash \<Longrightarrow> escape_char c = [c]"
  by (simp_all add: escape_char_def chars_distinct)

lemma escape_char_CR: "escape_char CR = [CR]" and escape_char_LF: "escape_char LF = [LF]"
  by (simp_all add: escape_char_def chars_distinct)

lemma escape_char_not_CR: "c \<noteq> CR \<Longrightarrow> CR \<notin> set (escape_char c)"
  by (auto simp: escape_char_def chars_distinct)

lemma translate_escape_char:
  "c \<noteq> CR \<Longrightarrow> translate_newlines (escape_char c @ xs) = escape_char c @ translate_newlines xs"
  by (auto simp: escape_char_def translate_not_CR chars_distinct)

lemma translate_escaped:
  "translate_newlines (concat (map escape_char s)) = concat (map escape_char (translate_newlines s))"
proof (induction s rule: translate_newlines.induct)
  case (1 c d cs)
  show ?case
  proof (cases "c = CR")
    case True
    show ?thesis
    proof (cases "d = LF")
      case True
      with \<open>c = CR\<close> 1 show ?thesis by (simp add: escape_char_CR escape_char_LF)
    next
      case False
      have "translate_newlines (CR # escape_char d @ concat (map escape_char cs))
              = LF # translate_newlines (escape_char d @ concat (map escape_char cs))"
        using False by (auto simp: escape_char_def chars_distinct)
      with \<open>c = CR\<close> False 1 show ?thesis by (simp add: escape_char_CR escape_char_LF)
    qed
  next
    case False
    with 1 show ?thesis by (simp add: translate_escape_char translate_not_CR)
  qed
next
  case (2 c)
  then show ?case by (auto simp: escape_char_def chars_distinct translate_not_CR)
next
  case 3
  then show ?case by simp
qed

lemma translate_quote_field:
  "translate_newlines (quote_field f @ ys) = quote_field (translate_newlines f) @ translate_newlines ys"
proof -
  have "translate_newlines (quote_field f @ ys)
      = dquote # translate_newlines (concat (map escape_char f) @ (dquote # ys))"
    by (simp add: quote_field_def translate_not_CR chars_distinct)
  also have "translate_newlines (concat (map escape_char f) @ (dquote # ys))
      = translate_newlines (concat (map escape_char f)) @ translate_newlines (dquote # ys)"
    by (rule translate_append_no_LF) (simp add: chars_distinct)
  finally show ?thesis
    by (simp add: translate_escaped quote_field_def translate_not_CR chars_distinct)
qed

lemma translate_join_tab:
  "(ys \<noteq> [] \<Longrightarrow> hd ys \<noteq> LF \<or> fs \<noteq> []) \<Longrightarrow>
   translate_newlines (join_tab (map quote_field fs) @ ys)
     = join_tab (map quote_field (map translate_newlines fs)) @ translate_newlines ys"
proof (induction fs rule: induct_list012)
  case 1
  then show ?case by simp
next
  case (2 f)
  show ?case by (simp add: translate_quote_field)
next
  case (3 f g gs)
  have "translate_newlines (join_tab (map quote_field (f # g # gs)) @ ys)
      = quote_field (translate_newlines f) @ translate_newlines (tab # join_tab (map quote_field (g # gs)) @ ys)"
    by (simp add: translate_quote_field)
  also have "translate_newlines (tab # join_tab (map quote_field (g # gs)) @ ys)
      = tab # translate_newlines (join_tab (map quote_field (g # gs)) @ ys)"
    by (simp add: translate_not_CR chars_distinct)
  finally show ?case using 3 by simp
qed

lemma translate_write_row:
  "translate_newlines (write_row fs @ ys) = write_row (map translate_newlines fs) @ translate_newlines ys"
proof (cases fs)
  case Nil
  then show ?thesis by (simp add: write_row_def translate_not_CR chars_distinct)
next
  case (Cons f gs)
  have "translate_newlines (join_tab (map quote_field fs) @ (LF # ys))
     = join_tab (map quote_field (map translate_newlines fs)) @ translate_newlines (LF # ys)"
    by (rule translate_join_tab) (simp add: Cons)
  then show ?thesis by (simp add: write_row_def translate_not_CR chars_distinct)
qed

lemma translate_rows:
  "translate_newlines (concat (map (\<lambda>r. write_row (g r)) rs))
     = concat (map (\<lambda>r. write_row (map translate_newlines (g r))) rs)"
  by (induction rs) (simp_all add: translate_write_row)



lemma split_lines_nonempty: "t \<noteq> [] \<Longrightarrow> split_lines t \<noteq> []"
  by (cases t) (auto split: list.splits)

lemma read_step:
  assumes "c \<noteq> LF" and "t \<noteq> []" and "process_char rd (Some c) = Inr rd'"
  shows "read_record rd (split_lines (c # t)) = read_record rd' (split_lines t)"
proof -
  from split_lines_nonempty[OF assms(2)] obtain l ls where ls: "split_lines t = l # ls"
    by (cases "split_lines t") auto
  with assms(1) have "split_lines (c # t) = (c # l) # ls" by simp
  then show ?thesis using ls assms(3) by simp
qed

lemma read_step_LF:
  assumes "process_char rd (Some LF) = Inr rd'" and "process_char rd' None = Inr rd''"
  shows "read_record rd (split_lines (LF # t))
           = (if rd_state rd'' = START_RECORD then Some (Inr (rd_fields rd'', split_lines t))
              else read_record rd'' (split_lines t))"
  using assms by simp

lemma double_backslash_simps:
  "double_backslash [] = []"
  "double_backslash (c # s) = (if c = backslash then [backslash, backslash] else [c]) @ double_backslash s"
  by (simp_all add: double_backslash_def)

lemma add_char_ok:
  "length (rd_field rd) < field_limit \<Longrightarrow> add_char c rd = Inr (rd\<lparr>rd_field := rd_field rd @ [c]\<rparr>)"
  by (simp add: add_char_def)

lemma read_quoted_tail:
  assumes "rd_state rd = IN_QUOTED_FIELD"
    and "length (rd_field rd) + length (double_backslash f) \<le> field_limit" and "t \<noteq> []"
  shows "read_record rd (split_lines (concat (map escape_char f) @ dquote # t))
           = read_record (rd\<lparr>rd_state := QUOTE_IN_QUOTED_FIELD, rd_field := rd_field rd @ double_backslash f\<rparr>)
               (split_lines t)"
  using assms
proof (induction f arbitrary: rd)
  case Nil
  have "process_char rd (Some dquote) = Inr (rd\<lparr>rd_state := QUOTE_IN_QUOTED_FIELD\<rparr>)"
    using Nil.prems(1) by (simp add: process_char_def)
  from read_step[OF _ Nil.prems(3) this] show ?case
    by (simp add: chars_distinct double_backslash_simps)
next
  case (Cons c f)
  let ?rest = "concat (map escape_char f) @ dquote # t"
  have rest: "?rest \<noteq> []" by simp
  have IH: "read_record rd' (split_lines ?rest)
      = read_record (rd'\<lparr>rd_state := QUOTE_IN_QUOTED_FIELD, rd_field := rd_field rd' @ double_backslash f\<rparr>)
          (split_lines t)"
    if "rd_state rd' = IN_QUOTED_FIELD"
      and "length (rd_field rd') + length (double_backslash f) \<le> field_limit" for rd'
    using Cons.IH[OF that] Cons.prems(3) by simp
  have room: "length (rd_field rd) < field_limit"
    using Cons.prems(2) by (simp add: double_backslash_simps split: if_splits)
  consider (q) "c = dquote" | (b) "c = backslash" | (n) "c = LF" | (o) "c \<noteq> dquote" "c \<noteq> backslash" "c \<noteq> LF"
    by blast
  then show ?case
  proof cases
    case q
    have len: "length (rd_field rd @ [dquote]) + length (double_backslash f) \<le> field_limit"
      using Cons.prems(2) q by (simp add: double_backslash_simps chars_distinct)
    have s1: "process_char rd (Some dquote) = Inr (rd\<lparr>rd_state := QUOTE_IN_QUOTED_FIELD\<rparr>)"
      using Cons.prems(1) by (simp add: process_char_def)
    have s2: "process_char (rd\<lparr>rd_state := QUOTE_IN_QUOTED_FIELD\<rparr>) (Some dquote)
                = Inr (rd\<lparr>rd_state := IN_QUOTED_FIELD, rd_field := rd_field rd @ [dquote]\<rparr>)"
      using room by (simp add: process_char_def add_char_ok then_state_def)
    have "read_record rd (split_lines (dquote # dquote # ?rest))
            = read_record (rd\<lparr>rd_state := IN_QUOTED_FIELD, rd_field := rd_field rd @ [dquote]\<rparr>) (split_lines ?rest)"
      using read_step[OF _ _ s1, of "dquote # ?rest"] read_step[OF _ rest s2]
      by (simp add: chars_distinct)
    also have "\<dots> = read_record (rd\<lparr>rd_state := QUOTE_IN_QUOTED_FIELD,
                         rd_field := rd_field rd @ [dquote] @ double_backslash f\<rparr>) (split_lines t)"
      using IH[of "rd\<lparr>rd_state := IN_QUOTED_FIELD, rd_field := rd_field rd @ [dquote]\<rparr>"] len by simp
    finally show ?thesis using q
      by (simp add: escape_char_simps double_backslash_simps chars_distinct)
  next
    case b
    have len: "length (rd_field rd @ [backslash, backslash]) + length (double_backslash f) \<le> field_limit"
      using Cons.prems(2) b by (simp add: double_backslash_simps)
    have s1: "process_char rd (Some backslash) = Inr (rd\<lparr>rd_field := rd_field rd @ [backslash]\<rparr>)"
      using Cons.prems(1) room by (simp add: process_char_def add_char_ok chars_distinct)
    have s2: "process_char (rd\<lparr>rd_field := rd_field rd @ [backslash]\<rparr>) (Some backslash)
                = Inr (rd\<lparr>rd_field := rd_field rd @ [backslash, backslash]\<rparr>)"
      using Cons.prems(1) len by (simp add: process_char_def add_char_def chars_distinct)
    have "read_record rd (split_lines (backslash # backslash # ?rest))
            = read_record (rd\<lparr>rd_field := rd_field rd @ [backslash, backslash]\<rparr>) (split_lines ?rest)"
      using read_step[OF _ _ s1, of "backslash # ?rest"] read_step[OF _ rest s2]
      by (simp add: chars_distinct)
    also have "\<dots> = read_record (rd\<lparr>rd_state := QUOTE_IN_QUOTED_FIELD,
                         rd_field := rd_field rd @ [backslash, backslash] @ double_backslash f\<rparr>) (split_lines t)"
      using IH[of "rd\<lparr>rd_field := rd_field rd @ [backslash, backslash]\<rparr>"] Cons.prems(1) len by simp
    finally show ?thesis using b
      by (simp add: escape_char_simps double_backslash_simps chars_distinct)
  next
    case n
    have len: "length (rd_field rd @ [LF]) + length (double_backslash f) \<le> field_limit"
      using Cons.prems(2) n by (simp add: double_backslash_simps chars_distinct)
    have s1: "process_char rd (Some LF) = Inr (rd\<lparr>rd_field := rd_field rd @ [LF]\<rparr>)"
      using Cons.prems(1) room by (simp add: process_char_def add_char_ok chars_distinct)
    have s2: "process_char (rd\<lparr>rd_field := rd_field rd @ [LF]\<rparr>) None
                = Inr (rd\<lparr>rd_field := rd_field rd @ [LF]\<rparr>)"
      using Cons.prems(1) by (simp add: process_char_def)
    have "read_record rd (split_lines (LF # ?rest))
            = read_record (rd\<lparr>rd_field := rd_field rd @ [LF]\<rparr>) (split_lines ?rest)"
      using read_step_LF[OF s1 s2, of ?rest] Cons.prems(1) by simp
    also have "\<dots> = read_record (rd\<lparr>rd_state := QUOTE_IN_QUOTED_FIELD,
                         rd_field := rd_field rd @ [LF] @ double_backslash f\<rparr>) (split_lines t)"
      using IH[of "rd\<lparr>rd_field := rd_field rd @ [LF]\<rparr>"] Cons.prems(1) len by simp
    finally show ?thesis using n
      by (simp add: escape_char_LF double_backslash_simps chars_distinct)
  next
    case o
    have len: "length (rd_field rd @ [c]) + length (double_backslash f) \<le> field_limit"
      using Cons.prems(2) o by (simp add: double_backslash_simps)
    have s1: "process_char rd (Some c) = Inr (rd\<lparr>rd_field := rd_field rd @ [c]\<rparr>)"
      using Cons.prems(1) o room by (simp add: process_char_def add_char_ok)
    have "read_record rd (split_lines (c # ?rest))
            = read_record (rd\<lparr>rd_field := rd_field rd @ [c]\<rparr>) (split_lines ?rest)"
      using read_step[OF o(3) rest s1] .
    also have "\<dots> = read_record (rd\<lparr>rd_state := QUOTE_IN_QUOTED_FIELD,
                         rd_field := rd_field rd @ [c] @ double_backslash f\<rparr>) (split_lines t)"
      using IH[of "rd\<lparr>rd_field := rd_field rd @ [c]\<rparr>"] Cons.prems(1) len by simp
    finally show ?thesis using o
      by (simp add: escape_char_simps double_backslash_simps)
  qed
qed

lemma read_quoted_field:
  assumes st: "rd_state rd = START_RECORD \<or> rd_state rd = START_FIELD"
    and "rd_field rd = []" and "length (double_backslash f) \<le> field_limit" and "t \<noteq> []"
  shows "read_record rd (split_lines (quote_field f @ t))
           = read_record (rd\<lparr>rd_state := QUOTE_IN_QUOTED_FIELD, rd_field := double_backslash f\<rparr>)
               (split_lines t)"
proof -
  have s1: "process_char rd (Some dquote) = Inr (rd\<lparr>rd_state := IN_QUOTED_FIELD\<rparr>)"
    using st by (auto simp: process_char_def start_field_def chars_distinct)
  have "read_record rd (split_lines (dquote # concat (map escape_char f) @ dquote # t))
      = read_record (rd\<lparr>rd_state := IN_QUOTED_FIELD\<rparr>) (split_lines (concat (map escape_char f) @ dquote # t))"
    by (rule read_step[OF _ _ s1]) (simp_all add: chars_distinct)
  also have "\<dots> = read_record (rd\<lparr>rd_state := QUOTE_IN_QUOTED_FIELD, rd_field := double_backslash f\<rparr>)
               (split_lines t)"
    using read_quoted_tail[of "rd\<lparr>rd_state := IN_QUOTED_FIELD\<rparr>" f t] assms by simp
  finally show ?thesis by (simp add: quote_field_def)
qed

lemma read_fields:
  assumes "rd_state rd = START_RECORD \<or> rd_state rd = START_FIELD" and "rd_field rd = []"
    and "\<forall>f \<in> set fs. length (double_backslash f) \<le> field_limit" and "fs \<noteq> []"
  shows "read_record rd (split_lines (join_tab (map quote_field fs) @ LF # t))
           = Some (Inr (rd_fields rd @ map double_backslash fs, split_lines t))"
  using assms
proof (induction fs arbitrary: rd rule: induct_list012)
  case 1
  then show ?case by simp
next
  case (2 f)
  let ?rd1 = "rd\<lparr>rd_state := QUOTE_IN_QUOTED_FIELD, rd_field := double_backslash f\<rparr>"
  have a: "read_record rd (split_lines (quote_field f @ LF # t)) = read_record ?rd1 (split_lines (LF # t))"
    using read_quoted_field[OF "2.prems"(1,2), of f "LF # t"] "2.prems" by simp
  have s1: "process_char ?rd1 (Some LF)
      = Inr (rd\<lparr>rd_state := EAT_CRNL, rd_field := [], rd_fields := rd_fields rd @ [double_backslash f]\<rparr>)"
    by (simp add: process_char_def save_field_def chars_distinct)
  have s2: "process_char (rd\<lparr>rd_state := EAT_CRNL, rd_field := [], rd_fields := rd_fields rd @ [double_backslash f]\<rparr>) None
      = Inr (rd\<lparr>rd_state := START_RECORD, rd_field := [], rd_fields := rd_fields rd @ [double_backslash f]\<rparr>)"
    by (simp add: process_char_def)
  show ?case using a read_step_LF[OF s1 s2, of t] by simp
next
  case (3 f g gs)
  let ?rd1 = "rd\<lparr>rd_state := QUOTE_IN_QUOTED_FIELD, rd_field := double_backslash f\<rparr>"
  let ?rd2 = "rd\<lparr>rd_state := START_FIELD, rd_field := [], rd_fields := rd_fields rd @ [double_backslash f]\<rparr>"
  let ?rest = "join_tab (map quote_field (g # gs)) @ LF # t"
  have a: "read_record rd (split_lines (quote_field f @ tab # ?rest)) = read_record ?rd1 (split_lines (tab # ?rest))"
    using read_quoted_field[OF "3.prems"(1,2), of f "tab # ?rest"] "3.prems" by simp
  have s1: "process_char ?rd1 (Some tab) = Inr ?rd2"
    by (simp add: process_char_def save_field_def chars_distinct)
  have b: "read_record ?rd1 (split_lines (tab # ?rest)) = read_record ?rd2 (split_lines ?rest)"
    by (rule read_step[OF _ _ s1]) (simp_all add: chars_distinct)
  have c: "read_record ?rd2 (split_lines ?rest)
      = Some (Inr (rd_fields ?rd2 @ map double_backslash (g # gs), split_lines t))"
    using "3.IH"(2)[of ?rd2] "3.prems" by simp
  show ?case using a b c by simp
qed

lemma read_written_row:
  assumes "\<forall>f \<in> set fs. length (double_backslash f) \<le> field_limit"
  shows "reader_next (split_lines (write_row fs @ t)) = Some (Inr (map double_backslash fs, split_lines t))"
proof (cases "fs = []")
  case True
  let ?rd0 = "\<lparr>rd_state = START_RECORD, rd_field = [], rd_fields = []\<rparr>"
  have s1: "process_char ?rd0 (Some LF) = Inr (?rd0\<lparr>rd_state := EAT_CRNL\<rparr>)"
    by (simp add: process_char_def)
  have s2: "process_char (?rd0\<lparr>rd_state := EAT_CRNL\<rparr>) None = Inr ?rd0"
    by (simp add: process_char_def)
  show ?thesis using True read_step_LF[OF s1 s2, of t]
    by (simp add: reader_next_def write_row_def)
next
  case False
  show ?thesis
    unfolding reader_next_def write_row_def
    using read_fields[of "\<lparr>rd_state = START_RECORD, rd_field = [], rd_fields = []\<rparr>" fs t] assms False
    by simp
qed

lemma file_lines_to_csv:
  "file_lines (to_csv conv df)
     = split_lines (write_row (map translate_newlines (columns df))
         @ concat (map (\<lambda>r. write_row (map translate_newlines (map (render_cell conv) r))) (rows df)))"
  by (simp add: file_lines_def to_csv_def decode_sig_bom translate_write_row translate_rows
      comp_def map_concat)

lemma double_backslash_id: "backslash \<notin> set s \<Longrightarrow> double_backslash s = s"
  by (induction s) (auto simp: double_backslash_simps)

lemma read_back_id: "backslash \<notin> set s \<Longrightarrow> CR \<notin> set s \<Longrightarrow> read_back s = s"
  by (simp add: read_back_def translate_id double_backslash_id)

text \<open>
  For every frame whose header fields, as read back, are within the field size limit, the
  check reads the header as written, up to \<open>read_back\<close>; and so it reads the first data
  row, when its fields are within the limit too.
\<close>

lemma header_read_back:
  assumes "\<forall>c \<in> set (columns df). length (read_back c) \<le> field_limit"
  shows "\<exists>rest. reader_next (file_lines (to_csv conv df)) = Some (Inr (map read_back (columns df), rest))
     \<and> (rows df = [] \<longrightarrow> reader_next rest = None)
     \<and> (\<forall>r rs. rows df = r # rs \<and> (\<forall>x \<in> set r. length (read_back (render_cell conv x)) \<le> field_limit) \<longrightarrow>
           (\<exists>rest'. reader_next rest = Some (Inr (map read_back (map (render_cell conv) r), rest'))))"
proof -
  let ?body = "concat (map (\<lambda>r. write_row (map translate_newlines (map (render_cell conv) r))) (rows df))"
  have h: "reader_next (file_lines (to_csv conv df))
      = Some (Inr (map read_back (columns df), split_lines ?body))"
    unfolding file_lines_to_csv
    using read_written_row[of "map translate_newlines (columns df)" ?body] assms
    by (simp add: read_back_def comp_def)
  have e: "rows df = [] \<longrightarrow> reader_next (split_lines ?body) = None"
    by (simp add: reader_next_def)
  have r: "\<forall>r rs. rows df = r # rs \<and> (\<forall>x \<in> set r. length (read_back (render_cell conv x)) \<le> field_limit) \<longrightarrow>
      (\<exists>rest'. reader_next (split_lines ?body) = Some (Inr (map read_back (map (render_cell conv) r), rest')))"
  proof (intro allI impI, elim conjE)
    fix r rs assume "rows df = r # rs"
      and len: "\<forall>x \<in> set r. length (read_back (render_cell conv x)) \<le> field_limit"
    then have "?body = write_row (map translate_newlines (map (render_cell conv) r))
        @ concat (map (\<lambda>r. write_row (map translate_newlines (map (render_cell conv) r))) rs)"
      by simp
    then show "\<exists>rest'. reader_next (split_lines ?body) = Some (Inr (map read_back (map (render_cell conv) r), rest'))"
      using read_written_row[of "map translate_newlines (map (render_cell conv) r)"] len
      by (simp add: read_back_def comp_def)
  qed
  from h e r show ?thesis by blast
qed

text \<open>
  C9, as the code has it. For every frame whose column names hold neither a backslash nor
  a carriage return and are within the reader's field size limit, and whose first record,
  if there is one, has fields within that limit as read back: the check of
  \<^verbatim>\<open>save_to_csv\<close> reads back a header equal to the column list, field for field, and
  prints no warning; and the first data row read back has as many fields as there are
  columns, whatever the cells hold.
\<close>

theorem export_round_trip:
  assumes names: "\<forall>c \<in> set (columns df). backslash \<notin> set c \<and> CR \<notin> set c \<and> length c \<le> field_limit"
    and first: "\<forall>r \<in> set (take 1 (rows df)). \<forall>x \<in> set r.
                  length (read_back (render_cell conv x)) \<le> field_limit"
    and wf: "wf_df df"
  shows "save_to_csv conv df = (to_csv conv df, [HeaderValidated])
    \<and> (\<exists>rest. reader_next (file_lines (to_csv conv df)) = Some (Inr (columns df, rest))
         \<and> (\<forall>r rs. rows df = r # rs \<longrightarrow>
              (\<exists>first_row rest'. reader_next rest = Some (Inr (first_row, rest'))
                 \<and> length first_row = length (columns df))))"
proof -
  have id: "map read_back (columns df) = columns df"
    using names by (simp add: map_idI read_back_id)
  have "\<forall>c \<in> set (columns df). length (read_back c) \<le> field_limit"
    using names by (simp add: read_back_id)
  from header_read_back[OF this, of conv] obtain rest where
    h: "reader_next (file_lines (to_csv conv df)) = Some (Inr (map read_back (columns df), rest))"
    and e: "rows df = [] \<longrightarrow> reader_next rest = None"
    and r: "\<forall>r rs. rows df = r # rs \<and> (\<forall>x \<in> set r. length (read_back (render_cell conv x)) \<le> field_limit) \<longrightarrow>
           (\<exists>rest'. reader_next rest = Some (Inr (map read_back (map (render_cell conv) r), rest')))"
    by blast
  have first_row: "\<forall>r rs. rows df = r # rs \<longrightarrow>
              (\<exists>first_row rest'. reader_next rest = Some (Inr (first_row, rest'))
                 \<and> length first_row = length (columns df))"
  proof (intro allI impI)
    fix r rs assume rows: "rows df = r # rs"
    with wf have l: "length r = length (columns df)" by (simp add: wf_df_def)
    from rows first have "\<forall>x \<in> set r. length (read_back (render_cell conv x)) \<le> field_limit"
      by simp
    with r rows obtain rest' where
      "reader_next rest = Some (Inr (map read_back (map (render_cell conv) r), rest'))" by blast
    with l show "\<exists>first_row rest'. reader_next rest = Some (Inr (first_row, rest'))
                 \<and> length first_row = length (columns df)"
      by (intro exI[of _ "map read_back (map (render_cell conv) r)"] exI[of _ rest']) simp
  qed
  have "validate_csv (columns df) (to_csv conv df) = [HeaderValidated]"
  proof (cases "rows df")
    case Nil
    with e h id show ?thesis by (simp add: validate_csv_def)
  next
    case (Cons r rs)
    with first_row obtain fr rest' where "reader_next rest = Some (Inr (fr, rest'))"
      "length fr = length (columns df)" by blast
    with h id show ?thesis by (simp add: validate_csv_def)
  qed
  with h id first_row show ?thesis by (auto simp: save_to_csv_def Let_def)
qed



text \<open>The field size limit is evaluated on integers.\<close>

lemma int_length_code [code]:
  "int_length [] = 0"
  "int_length (x # xs) = 1 + int_length xs"
  by (simp_all add: int_length_def)

lemma add_char_code [code]:
  "add_char c rd =
     (if 131072 \<le> int_length (rd_field rd) then Inl CsvError
      else Inr (rd\<lparr>rd_field := rd_field rd @ [c]\<rparr>))"
  by (simp add: add_char_def field_limit_def int_length_def)

lemma split_lines_first:
  "LF \<notin> set xs \<Longrightarrow> split_lines (xs @ LF # t) = (xs @ [LF]) # split_lines t"
  by (induction xs) auto

lemma process_line_fill:
  assumes "rd_state rd = IN_QUOTED_FIELD" and "c \<noteq> dquote"
    and "length (rd_field rd) \<le> field_limit"
  shows "process_line rd (replicate n c @ rest)
           = (if length (rd_field rd) + n \<le> field_limit
              then process_line (rd\<lparr>rd_field := rd_field rd @ replicate n c\<rparr>) rest
              else Inl CsvError)"
  using assms(1,3)
proof (induction n arbitrary: rd)
  case 0
  then show ?case by simp
next
  case (Suc n)
  show ?case
  proof (cases "length (rd_field rd) < field_limit")
    case True
    then have "process_char rd (Some c) = Inr (rd\<lparr>rd_field := rd_field rd @ [c]\<rparr>)"
      using Suc.prems assms(2) by (simp add: process_char_def add_char_ok)
    then show ?thesis
      using Suc.IH[of "rd\<lparr>rd_field := rd_field rd @ [c]\<rparr>"] Suc.prems True
      by (simp add: replicate_app_Cons_same)
  next
    case False
    then have "process_char rd (Some c) = Inl CsvError"
      using Suc.prems assms(2) by (simp add: process_char_def add_char_def)
    with False show ?thesis by simp
  qed
qed

lemma long_name_unreadable:
  "validate_csv (columns long_name_frame) (to_csv example_conv long_name_frame)
     = [ErrorValidating CsvError]"
proof -
  let ?name = "replicate 131073 (CHR ''a'')"
  let ?rd0 = "\<lparr>rd_state = START_RECORD, rd_field = [], rd_fields = []\<rparr>"
  have a: "CHR ''a'' \<noteq> LF" "CHR ''a'' \<noteq> CR" "CHR ''a'' \<noteq> dquote" "CHR ''a'' \<noteq> backslash"
    by (simp_all add: LF_def CR_def dquote_def backslash_def)
  have q: "quote_field ?name = dquote # ?name @ [dquote]"
  proof -
    have "concat (map escape_char (replicate n (CHR ''a''))) = replicate n (CHR ''a'')" for n
      by (induction n) (simp_all add: escape_char_simps a)
    then show ?thesis by (simp add: quote_field_def)
  qed
  have csv: "to_csv example_conv long_name_frame = bom @ (dquote # ?name @ [dquote]) @ [LF]"
    by (simp add: to_csv_def long_name_frame_def write_row_def q)
  have noCR: "CR \<notin> set ((dquote # ?name @ [dquote]) @ [LF])"
    using a by (auto simp: chars_distinct)
  have noLF: "LF \<notin> set (dquote # ?name @ [dquote])"
    using a by (auto simp: chars_distinct)
  have lines: "file_lines (to_csv example_conv long_name_frame) = [(dquote # ?name @ [dquote]) @ [LF]]"
    unfolding file_lines_def csv decode_sig_bom translate_id[OF noCR]
    using split_lines_first[OF noLF, of "[]"] by simp
  have s1: "process_char ?rd0 (Some dquote) = Inr (?rd0\<lparr>rd_state := IN_QUOTED_FIELD\<rparr>)"
    by (simp add: process_char_def start_field_def chars_distinct)
  have "process_line (?rd0\<lparr>rd_state := IN_QUOTED_FIELD\<rparr>) (?name @ [dquote, LF]) = Inl CsvError"
    using process_line_fill[of "?rd0\<lparr>rd_state := IN_QUOTED_FIELD\<rparr>" "CHR ''a''" 131073 "[dquote, LF]"] a
    by (simp add: field_limit_def)
  with s1 have "process_line ?rd0 ((dquote # ?name @ [dquote]) @ [LF]) = Inl CsvError"
    by simp
  then have "reader_next (file_lines (to_csv example_conv long_name_frame)) = Some (Inl CsvError)"
    by (simp add: lines reader_next_def)
  then show ?thesis by (simp add: validate_csv_def)
qed

lemma long_name_sanitized: "fst (clean_dataframe example_conv long_name_frame) = long_name_frame"
  by (simp add: clean_dataframe_cells long_name_frame_def)

text \<open>
  C9 as stated fails for sanitized frames with an unusual column name (the sanitizer
  leaves all three frames as they are). The writer doubles a backslash and the reader does
  not undo it; a carriage return is read as a linefeed; and a name over the field size
  limit stops the reader with an error. The check reports a header mismatch for the first
  two and the reader's error for the third.
\<close>

theorem export_round_trip_counterexample:
  "fst (clean_dataframe example_conv backslash_frame) = backslash_frame
   \<and> snd (save_to_csv example_conv backslash_frame)
        = [HeaderMismatch [[CHR ''a'', backslash, backslash, CHR ''b''], ''Tier'']]
   \<and> fst (clean_dataframe example_conv cr_frame) = cr_frame
   \<and> snd (save_to_csv example_conv cr_frame)
        = [HeaderMismatch [[CHR ''a'', LF, CHR ''b''], ''Tier'']]
   \<and> fst (clean_dataframe example_conv long_name_frame) = long_name_frame
   \<and> snd (save_to_csv example_conv long_name_frame) = [ErrorValidating CsvError]"
proof -
  have "fst (clean_dataframe example_conv backslash_frame) = backslash_frame
   \<and> snd (save_to_csv example_conv backslash_frame)
        = [HeaderMismatch [[CHR ''a'', backslash, backslash, CHR ''b''], ''Tier'']]
   \<and> fst (clean_dataframe example_conv cr_frame) = cr_frame
   \<and> snd (save_to_csv example_conv cr_frame)
        = [HeaderMismatch [[CHR ''a'', LF, CHR ''b''], ''Tier'']]"
    by code_simp
  moreover have "snd (save_to_csv example_conv long_name_frame) = [ErrorValidating CsvError]"
    by (simp add: save_to_csv_def Let_def long_name_unreadable)
  ultimately show ?thesis using long_name_sanitized by blast
qed

theorem export_round_trip_witness:
  "list_all (\<lambda>c. backslash \<notin> set c \<and> CR \<notin> set c \<and> length c \<le> field_limit) (columns ranked_frame)
   \<and> list_all (\<lambda>r. list_all (\<lambda>x. length (read_back (render_cell example_conv x)) \<le> field_limit) r)
        (take 1 (rows ranked_frame))
   \<and> wf_df ranked_frame
   \<and> snd (save_to_csv example_conv ranked_frame) = [HeaderValidated]"
proof -
  have "list_all (\<lambda>c. backslash \<notin> set c \<and> CR \<notin> set c \<and> int_length c \<le> 131072) (columns ranked_frame)"
    by code_simp
  then have n: "list_all (\<lambda>c. backslash \<notin> set c \<and> CR \<notin> set c \<and> length c \<le> field_limit) (columns ranked_frame)"
    by (simp add: int_length_def field_limit_def)
  have "list_all (\<lambda>r. list_all (\<lambda>x. int_length (read_back (render_cell example_conv x)) \<le> 131072) r)
        (take 1 (rows ranked_frame))"
    by code_simp
  then have f: "list_all (\<lambda>r. list_all (\<lambda>x. length (read_back (render_cell example_conv x)) \<le> field_limit) r)
        (take 1 (rows ranked_frame))"
    by (simp add: int_length_def field_limit_def)
  have w: "wf_df ranked_frame" by code_simp
  from n have n': "\<forall>c \<in> set (columns ranked_frame). backslash \<notin> set c \<and> CR \<notin> set c \<and> length c \<le> field_limit"
    by (simp add: list_all_iff)
  from f have f': "\<forall>r \<in> set (take 1 (rows ranked_frame)). \<forall>x \<in> set r.
                  length (read_back (render_cell example_conv x)) \<le> field_limit"
    by (simp add: list_all_iff)
  from export_round_trip[OF n' f' w] n f w show ?thesis by simp
qed

end
